theory Spec2Isabelle
  imports Main "HOL-Library.Sublist"
begin

section \<open>User profile service (main.go)\<close>

text \<open>
  A shallow embedding of the handlers of \<^verbatim>\<open>main.go\<close>. Go strings are byte sequences,
  so a Go \<^verbatim>\<open>string\<close> is a \<^typ>\<open>string\<close> (a list of 8-bit characters) holding the UTF-8
  encoding, and \<^verbatim>\<open>len(s)\<close> is \<^term>\<open>length s\<close>.
\<close>

subsection \<open>Bytes and the string helpers of the Go library\<close>

definition byte :: "char \<Rightarrow> nat" where
  "byte c = of_char c"

definition is_lower :: "char \<Rightarrow> bool" where
  "is_lower c = (97 \<le> byte c \<and> byte c \<le> 122)"

definition is_upper :: "char \<Rightarrow> bool" where
  "is_upper c = (65 \<le> byte c \<and> byte c \<le> 90)"

definition is_digit :: "char \<Rightarrow> bool" where
  "is_digit c = (48 \<le> byte c \<and> byte c \<le> 57)"

definition is_letter :: "char \<Rightarrow> bool" where
  "is_letter c = (is_lower c \<or> is_upper c)"

text \<open>\<^verbatim>\<open>strings.Contains(s, substr)\<close>: \<^verbatim>\<open>substr\<close> occurs in \<^verbatim>\<open>s\<close> as a contiguous run of bytes.\<close>

fun has_prefix :: "string \<Rightarrow> string \<Rightarrow> bool" where
  "has_prefix s [] = True"
| "has_prefix [] (p # ps) = False"
| "has_prefix (c # cs) (p # ps) = (c = p \<and> has_prefix cs ps)"

fun Contains :: "string \<Rightarrow> string \<Rightarrow> bool" where
  "Contains [] substr = (substr = [])"
| "Contains (c # cs) substr = (has_prefix (c # cs) substr \<or> Contains cs substr)"

text \<open>
  \<^verbatim>\<open>strings.Fields(s)\<close> splits \<^verbatim>\<open>s\<close> around each run of white space as
  \<^verbatim>\<open>unicode.IsSpace\<close> defines it. \<^term>\<open>space_width s\<close> is the number of bytes of the
  white-space character that \<^term>\<open>s\<close> starts with, and 0 when it starts with none: the
  six ASCII ones (tab, line feed, vertical tab, form feed, carriage return, space) and
  the UTF-8 encodings of U+0085, U+00A0, U+1680, U+2000..U+200A, U+2028, U+2029, U+202F,
  U+205F and U+3000. Each of these encodings starts with a byte that is no continuation
  byte, so scanning the bytes for them finds the same characters as decoding the runes
  one by one.
\<close>

definition ascii_space :: "char \<Rightarrow> bool" where
  "ascii_space c = ((9 \<le> byte c \<and> byte c \<le> 13) \<or> byte c = 32)"

fun space_width :: "string \<Rightarrow> nat" where
  "space_width [] = 0"
| "space_width [a] = (if ascii_space a then 1 else 0)"
| "space_width [a, b] =
     (if ascii_space a then 1
      else if byte a = 0xC2 \<and> (byte b = 0x85 \<or> byte b = 0xA0) then 2
      else 0)"
| "space_width (a # b # c # r) =
     (if ascii_space a then 1
      else if byte a = 0xC2 \<and> (byte b = 0x85 \<or> byte b = 0xA0) then 2
      else if byte a = 0xE1 \<and> byte b = 0x9A \<and> byte c = 0x80 then 3
      else if byte a = 0xE2 \<and> byte b = 0x80 \<and>
              ((0x80 \<le> byte c \<and> byte c \<le> 0x8A) \<or> byte c = 0xA8 \<or> byte c = 0xA9 \<or> byte c = 0xAF)
           then 3
      else if byte a = 0xE2 \<and> byte b = 0x81 \<and> byte c = 0x9F then 3
      else if byte a = 0xE3 \<and> byte b = 0x80 \<and> byte c = 0x80 then 3
      else 0)"

text \<open>
  \<^term>\<open>Fields_scan skip cur s\<close>: \<^term>\<open>cur\<close> is the field being read, \<^term>\<open>skip\<close> the
  number of bytes left of the white-space character being skipped.
\<close>

fun Fields_scan :: "nat \<Rightarrow> string \<Rightarrow> string \<Rightarrow> string list" where
  "Fields_scan skip cur [] = (if cur = [] then [] else [cur])"
| "Fields_scan (Suc k) cur (c # cs) = Fields_scan k cur cs"
| "Fields_scan 0 cur (c # cs) =
     (case space_width (c # cs) of
        0 \<Rightarrow> Fields_scan 0 (cur @ [c]) cs
      | Suc k \<Rightarrow> (if cur = [] then Fields_scan k [] cs else cur # Fields_scan k [] cs))"

definition Fields :: "string \<Rightarrow> string list" where
  "Fields s = Fields_scan 0 [] s"

text \<open>\<^verbatim>\<open>strings.Join(elems, sep)\<close>.\<close>

fun Join :: "string list \<Rightarrow> string \<Rightarrow> string" where
  "Join [] sep = []"
| "Join [e] sep = e"
| "Join (e # f # es) sep = e @ sep @ Join (f # es) sep"

text \<open>
  \<^verbatim>\<open>strings.ToLower(s)\<close>. On a string of ASCII bytes it maps \<^verbatim>\<open>A..Z\<close> to \<^verbatim>\<open>a..z\<close>;
  on any other string it lower-cases rune by rune through the Unicode tables of the Go
  library, which are no part of this repository: \<^term>\<open>unicode_lower\<close> stands for that
  path and is a parameter.
\<close>

definition ascii_lower :: "char \<Rightarrow> char" where
  "ascii_lower c = (if is_upper c then ''abcdefghijklmnopqrstuvwxyz'' ! (byte c - 65) else c)"

definition ToLower :: "(string \<Rightarrow> string) \<Rightarrow> string \<Rightarrow> string" where
  "ToLower unicode_lower s =
     (if list_all (\<lambda>c. byte c < 128) s then map ascii_lower s else unicode_lower s)"

text \<open>
  \<^verbatim>\<open>strconv.Itoa\<close> and \<^verbatim>\<open>strconv.Atoi\<close> on the 64-bit \<^verbatim>\<open>int\<close>: decimal digits with
  an optional sign; \<^verbatim>\<open>Atoi\<close> fails on an empty or non-decimal text and on a value out
  of range.
\<close>

definition digit_char :: "nat \<Rightarrow> char" where
  "digit_char d = ''0123456789'' ! (d mod 10)"

fun nat_digits :: "nat \<Rightarrow> string" where
  "nat_digits n = (if n < 10 then [digit_char n] else nat_digits (n div 10) @ [digit_char (n mod 10)])"

definition Itoa :: "int \<Rightarrow> string" where
  "Itoa i = (if i < 0 then CHR ''-'' # nat_digits (nat (- i)) else nat_digits (nat i))"

fun digits_val :: "nat \<Rightarrow> string \<Rightarrow> nat" where
  "digits_val acc [] = acc"
| "digits_val acc (c # cs) = digits_val (10 * acc + (byte c - 48)) cs"

definition Atoi :: "string \<Rightarrow> int option" where
  "Atoi s =
     (let neg = has_prefix s ''-'';
          ds = (if has_prefix s ''-'' \<or> has_prefix s ''+'' then tl s else s);
          v = (if neg then - int (digits_val 0 ds) else int (digits_val 0 ds))
      in if ds = [] \<or> \<not> list_all is_digit ds then None
         else if v < - (2 ^ 63) \<or> 2 ^ 63 \<le> v then None
         else Some v)"

subsection \<open>The two regular expressions of \<^verbatim>\<open>init\<close>\<close>

text \<open>
  Both expressions are anchored (\<^verbatim>\<open>^...$\<close>) sequences of repeated character classes:
  \<^term>\<open>Rep cls lo hi\<close> is \<^verbatim>\<open>[cls]{lo,hi}\<close>, with \<^term>\<open>None\<close> for no upper bound, so
  \<^verbatim>\<open>[cls]+\<close> is \<^term>\<open>Rep cls 1 None\<close> and a literal character is a class of one
  repeated once. \<^term>\<open>MatchString\<close> tries every length the item may take.
\<close>

datatype item = Rep "char \<Rightarrow> bool" nat "nat option"

fun MatchString :: "item list \<Rightarrow> string \<Rightarrow> bool" where
  "MatchString [] s = (s = [])"
| "MatchString (Rep cls lo hi # ps) s =
     list_ex (\<lambda>k. list_all cls (take k s) \<and> MatchString ps (drop k s))
       [lo ..< Suc (case hi of None \<Rightarrow> length s | Some h \<Rightarrow> min h (length s))]"

definition word_class :: "char \<Rightarrow> bool" where
  "word_class c = (is_letter c \<or> is_digit c \<or> c = CHR ''_'')"

definition local_class :: "char \<Rightarrow> bool" where
  "local_class c = (is_letter c \<or> is_digit c \<or> c = CHR ''.'' \<or> c = CHR ''_'' \<or> c = CHR ''%''
     \<or> c = CHR ''+'' \<or> c = CHR ''-'')"

definition domain_class :: "char \<Rightarrow> bool" where
  "domain_class c = (is_letter c \<or> is_digit c \<or> c = CHR ''.'' \<or> c = CHR ''-'')"

definition lit :: "char \<Rightarrow> item" where
  "lit x = Rep (\<lambda>c. c = x) 1 (Some 1)"

definition usernameRegex :: "item list" where
  "usernameRegex = [Rep word_class 3 (Some 20)]"

definition emailRegex :: "item list" where
  "emailRegex =
     [Rep local_class 1 None, lit (CHR ''@''), Rep domain_class 1 None, lit (CHR ''.''),
      Rep is_letter 2 None]"

subsection \<open>The record and its validation\<close>

record User =
  ID :: int
  Username :: string
  Email :: string
  Bio :: string
  Created :: string

definition validateUser :: "User \<Rightarrow> bool" where
  "validateUser user =
     (if \<not> MatchString usernameRegex (Username user) then False
      else if \<not> MatchString emailRegex (Email user) then False
      else if length (Bio user) > 1000 then False
      else if Contains (Bio user) ''spam'' then False
      else True)"

definition processUserData :: "User \<Rightarrow> User" where
  "processUserData user = user\<lparr>Bio := Join (Fields (Bio user)) '' ''\<rparr>"

subsection \<open>The store, as the service sees it\<close>

text \<open>
  The table of \<^verbatim>\<open>initDB\<close>: \<^verbatim>\<open>id SERIAL PRIMARY KEY\<close>, \<^verbatim>\<open>username\<close> and \<^verbatim>\<open>email\<close>
  \<^verbatim>\<open>NOT NULL\<close>, \<^verbatim>\<open>bio TEXT\<close> and \<^verbatim>\<open>created TIMESTAMP\<close> nullable. A \<^verbatim>\<open>time.Time\<close> is
  represented by its RFC 3339 text, so \<^verbatim>\<open>created.Format(time.RFC3339)\<close> reads it off.
\<close>

datatype Time = Time (RFC3339: string)

record Row =
  col_id :: int
  col_username :: string
  col_email :: string
  col_bio :: "string option"
  col_created :: "Time option"

datatype sql_error = ErrNoRows | ErrOther

text \<open>
  \<^verbatim>\<open>Scan(&user.ID, &user.Username, &user.Email, &user.Bio, &created)\<close>: a \<^verbatim>\<open>NULL\<close> cannot
  be stored into a \<^verbatim>\<open>string\<close> or a \<^verbatim>\<open>time.Time\<close>, which is the decode failure of a row.
\<close>

definition Scan :: "Row \<Rightarrow> sql_error + User \<times> Time" where
  "Scan r =
     (case col_bio r of
        None \<Rightarrow> Inl ErrOther
      | Some b \<Rightarrow>
          (case col_created r of
             None \<Rightarrow> Inl ErrOther
           | Some t \<Rightarrow>
               Inr (\<lparr>ID = col_id r, Username = col_username r, Email = col_email r, Bio = b,
                     Created = []\<rparr>, t)))"

text \<open>
  The database behind \<^verbatim>\<open>us.db\<close> is no part of the repository. Each handler takes the
  call it makes on it as a parameter: a function from the statement text (and the
  state \<^typ>\<open>'db\<close> of the database) to the answer the driver gives. \<^verbatim>\<open>GetUser\<close> sends
  a \<^verbatim>\<open>SELECT\<close> by an integer id, which leaves the database as it is.
\<close>

type_synonym 'db QueryRow_id = "string \<Rightarrow> 'db \<Rightarrow> (sql_error + int) \<times> 'db"
type_synonym 'db QueryRow_user = "string \<Rightarrow> 'db \<Rightarrow> sql_error + Row"
type_synonym 'db Query_users = "string \<Rightarrow> 'db \<Rightarrow> (sql_error + Row list) \<times> 'db"
type_synonym 'db Exec_update = "string \<Rightarrow> 'db \<Rightarrow> (sql_error + nat) \<times> 'db"

subsection \<open>The service state\<close>

text \<open>
  \<^verbatim>\<open>cache map[int]*User\<close> maps an id to a pointer: \<^term>\<open>cache\<close> gives the address and
  \<^term>\<open>heap\<close> the \<^verbatim>\<open>User\<close> variable at it; \<^term>\<open>free\<close> is the next unused address. The
  package variables \<^verbatim>\<open>globalUsers\<close> and \<^verbatim>\<open>requestCount\<close> are part of the state. The
  Prometheus metrics and the locks are left out (one handler runs at a time).
\<close>

record 'db UserService =
  db :: 'db
  cache :: "int \<rightharpoonup> nat"
  heap :: "nat \<Rightarrow> User"
  free :: nat
  globalUsers :: "User list"
  requestCount :: nat

definition zero_User :: User where
  "zero_User = \<lparr>ID = 0, Username = [], Email = [], Bio = [], Created = []\<rparr>"

definition NewUserService :: "'db \<Rightarrow> 'db UserService" where
  "NewUserService d =
     \<lparr>db = d, cache = Map.empty, heap = (\<lambda>a. zero_User), free = 0, globalUsers = [],
      requestCount = 0\<rparr>"

text \<open>The record a cache entry points to, if the id has an entry.\<close>

definition cached :: "'db UserService \<Rightarrow> int \<Rightarrow> User option" where
  "cached s i = map_option (heap s) (cache s i)"

text \<open>\<^verbatim>\<open>us.cache[id] = &user\<close> for a variable \<^verbatim>\<open>user\<close> of the handler: it gets a new address.\<close>

definition cache_put :: "int \<Rightarrow> User \<Rightarrow> 'db UserService \<Rightarrow> 'db UserService" where
  "cache_put i user s =
     s\<lparr>heap := (heap s)(free s := user), cache := (cache s)(i \<mapsto> free s), free := Suc (free s)\<rparr>"

datatype Payload = OneUser User | ManyUsers "User list"

datatype Response = HttpError int string | JSON int Payload

subsection \<open>CreateUser\<close>

definition CreateUser_query :: "User \<Rightarrow> string \<Rightarrow> string" where
  "CreateUser_query user now =
     ''INSERT INTO users (username, email, bio, created) VALUES ('' @ [CHR 0x27] @ Username user
       @ [CHR 0x27] @ '', '' @ [CHR 0x27] @ Email user
       @ [CHR 0x27] @ '', '' @ [CHR 0x27] @ Bio user
       @ [CHR 0x27] @ '', '' @ [CHR 0x27] @ now
       @ [CHR 0x27] @ '') RETURNING id''"

text \<open>
  \<^term>\<open>body\<close> is the result of decoding the request body into a \<^verbatim>\<open>User\<close> (every field
  the JSON leaves out is the zero value), \<^term>\<open>None\<close> when decoding fails; \<^term>\<open>now\<close> is
  \<^verbatim>\<open>time.Now().Format(time.RFC3339)\<close>.
\<close>

definition CreateUser ::
  "'db QueryRow_id \<Rightarrow> string \<Rightarrow> User option \<Rightarrow> 'db UserService \<Rightarrow> Response \<times> 'db UserService" where
  "CreateUser QueryRow now body s =
     (case body of
        None \<Rightarrow> (HttpError 400 ''Invalid JSON'', s)
      | Some user \<Rightarrow>
          if \<not> validateUser user then (HttpError 400 ''Invalid user data'', s)
          else
            (case QueryRow (CreateUser_query user now) (db s) of
               (Inl err, d) \<Rightarrow> (HttpError 500 ''Database error'', s\<lparr>db := d\<rparr>)
             | (Inr i, d) \<Rightarrow>
                 (let user1 = user\<lparr>ID := i\<rparr>;
                      s1 = s\<lparr>db := d, globalUsers := globalUsers s @ [user1]\<rparr>
                  in (JSON 201 (OneUser user1), cache_put i user1 s1))))"

subsection \<open>GetUser\<close>

definition GetUser_query :: "int \<Rightarrow> string" where
  "GetUser_query i = ''SELECT * FROM users WHERE id = '' @ Itoa i"

definition GetUser ::
  "'db QueryRow_user \<Rightarrow> string \<Rightarrow> 'db UserService \<Rightarrow> Response \<times> 'db UserService" where
  "GetUser QueryRow vars_id s =
     (case Atoi vars_id of
        None \<Rightarrow> (HttpError 400 ''Invalid user ID'', s)
      | Some i \<Rightarrow>
          (case cache s i of
             Some a \<Rightarrow> (JSON 200 (OneUser (processUserData (heap s a))), s)
           | None \<Rightarrow>
               (case QueryRow (GetUser_query i) (db s) of
                  Inl ErrNoRows \<Rightarrow> (HttpError 404 ''User not found'', s)
                | Inl ErrOther \<Rightarrow> (HttpError 500 ''Database error'', s)
                | Inr row \<Rightarrow>
                    (case Scan row of
                       Inl err \<Rightarrow> (HttpError 500 ''Database error'', s)
                     | Inr (user, created) \<Rightarrow>
                         (let user1 = user\<lparr>Created := RFC3339 created\<rparr>
                          in (JSON 200 (OneUser (processUserData user1)), cache_put i user1 s))))))"

subsection \<open>ListUsers\<close>

definition ListUsers_query :: string where
  "ListUsers_query = ''SELECT id, username, email, bio, created FROM users ORDER BY created DESC''"

text \<open>The loop over \<^verbatim>\<open>rows.Next()\<close>: the first row that fails to scan ends the handler.\<close>

fun ListUsers_rows :: "Row list \<Rightarrow> User list \<Rightarrow> Response + User list" where
  "ListUsers_rows [] users = Inr users"
| "ListUsers_rows (r # rs) users =
     (case Scan r of
        Inl err \<Rightarrow> Inl (HttpError 500 ''Database error'')
      | Inr (user, created) \<Rightarrow>
          ListUsers_rows rs (users @ [processUserData (user\<lparr>Created := RFC3339 created\<rparr>)]))"

text \<open>
  The loop \<^verbatim>\<open>for _, user := range users { us.cache[user.ID] = &user }\<close>. What \<^verbatim>\<open>&user\<close>
  is depends on the language version that \<^verbatim>\<open>go.mod\<close> declares, and \<^verbatim>\<open>go.mod\<close> is not
  among the sources: from Go 1.22 on every iteration has a variable \<^verbatim>\<open>user\<close> of its own
  (\<^term>\<open>backfill_fresh\<close>); before, one variable is shared by all iterations and assigned
  each element in turn (\<^term>\<open>backfill_shared\<close>, the variable at address \<^term>\<open>a\<close>). The
  version is the parameter \<^term>\<open>per_iteration\<close> of the handler.
\<close>

fun backfill_fresh :: "User list \<Rightarrow> 'db UserService \<Rightarrow> 'db UserService" where
  "backfill_fresh [] s = s"
| "backfill_fresh (user # users) s = backfill_fresh users (cache_put (ID user) user s)"

fun backfill_shared :: "nat \<Rightarrow> User list \<Rightarrow> 'db UserService \<Rightarrow> 'db UserService" where
  "backfill_shared a [] s = s"
| "backfill_shared a (user # users) s =
     backfill_shared a users (s\<lparr>heap := (heap s)(a := user), cache := (cache s)(ID user \<mapsto> a)\<rparr>)"

definition backfill :: "bool \<Rightarrow> User list \<Rightarrow> 'db UserService \<Rightarrow> 'db UserService" where
  "backfill per_iteration users s =
     (if per_iteration then backfill_fresh users s
      else backfill_shared (free s) users (s\<lparr>free := Suc (free s)\<rparr>))"

definition ListUsers ::
  "'db Query_users \<Rightarrow> bool \<Rightarrow> 'db UserService \<Rightarrow> Response \<times> 'db UserService" where
  "ListUsers Query per_iteration s =
     (let s1 = s\<lparr>requestCount := requestCount s + 1\<rparr> in
      case Query ListUsers_query (db s1) of
        (Inl err, d) \<Rightarrow> (HttpError 500 ''Database error'', s1\<lparr>db := d\<rparr>)
      | (Inr rows, d) \<Rightarrow>
          (case ListUsers_rows rows [] of
             Inl resp \<Rightarrow> (resp, s1\<lparr>db := d\<rparr>)
           | Inr users \<Rightarrow> (JSON 200 (ManyUsers users), backfill per_iteration users (s1\<lparr>db := d\<rparr>))))"

subsection \<open>UpdateUser\<close>

definition UpdateUser_query :: "User \<Rightarrow> int \<Rightarrow> string" where
  "UpdateUser_query user i =
     ''UPDATE users SET username='' @ [CHR 0x27] @ Username user
       @ [CHR 0x27] @ '', email='' @ [CHR 0x27] @ Email user
       @ [CHR 0x27] @ '', bio='' @ [CHR 0x27] @ Bio user
       @ [CHR 0x27] @ '' WHERE id='' @ Itoa i"

definition UpdateUser ::
  "'db Exec_update \<Rightarrow> string \<Rightarrow> User option \<Rightarrow> 'db UserService \<Rightarrow> Response \<times> 'db UserService" where
  "UpdateUser Exec vars_id body s =
     (case Atoi vars_id of
        None \<Rightarrow> (HttpError 400 ''Invalid user ID'', s)
      | Some i \<Rightarrow>
          (case body of
             None \<Rightarrow> (HttpError 400 ''Invalid JSON'', s)
           | Some user \<Rightarrow>
               if \<not> validateUser user then (HttpError 400 ''Invalid user data'', s)
               else
                 (case Exec (UpdateUser_query user i) (db s) of
                    (Inl err, d) \<Rightarrow> (HttpError 500 ''Database error'', s\<lparr>db := d\<rparr>)
                  | (Inr rowsAffected, d) \<Rightarrow>
                      if rowsAffected = 0 then (HttpError 404 ''User not found'', s\<lparr>db := d\<rparr>)
                      else (JSON 200 (OneUser (user\<lparr>ID := i\<rparr>)),
                            s\<lparr>db := d, cache := (cache s)(i := None)\<rparr>))))"

subsection \<open>SearchUsers\<close>

definition SearchUsers_query :: "string \<Rightarrow> string" where
  "SearchUsers_query searchTerm =
     [CHR 0x0A, CHR 0x09, CHR 0x09] @ ''SELECT id, username, email, bio, created ''
     @ [CHR 0x0A, CHR 0x09, CHR 0x09] @ ''FROM users ''
     @ [CHR 0x0A, CHR 0x09, CHR 0x09] @ ''WHERE LOWER(username) LIKE '' @ [CHR 0x27] @ ''%''
         @ searchTerm @ ''%'' @ [CHR 0x27] @ '' ''
     @ [CHR 0x0A, CHR 0x09, CHR 0x09] @ ''   OR LOWER(email) LIKE '' @ [CHR 0x27] @ ''%''
         @ searchTerm @ ''%'' @ [CHR 0x27] @ '' ''
     @ [CHR 0x0A, CHR 0x09, CHR 0x09] @ ''   OR LOWER(bio) LIKE '' @ [CHR 0x27] @ ''%''
         @ searchTerm @ ''%'' @ [CHR 0x27]"

text \<open>The loop over \<^verbatim>\<open>rows.Next()\<close>: a row that fails to scan is passed over.\<close>

fun SearchUsers_rows :: "Row list \<Rightarrow> User list \<Rightarrow> User list" where
  "SearchUsers_rows [] users = users"
| "SearchUsers_rows (r # rs) users =
     (case Scan r of
        Inl err \<Rightarrow> SearchUsers_rows rs users
      | Inr (user, created) \<Rightarrow>
          SearchUsers_rows rs (users @ [processUserData (user\<lparr>Created := RFC3339 created\<rparr>)]))"

text \<open>
  \<^term>\<open>q\<close> is the query parameter \<^verbatim>\<open>q\<close> of the request. The second loop of the handler
  (over \<^verbatim>\<open>users\<close>, breaking at the first bio that contains the term) computes nothing
  and changes nothing, so it has no counterpart here.
\<close>

definition SearchUsers ::
  "'db Query_users \<Rightarrow> (string \<Rightarrow> string) \<Rightarrow> string \<Rightarrow> 'db UserService
     \<Rightarrow> Response \<times> 'db UserService" where
  "SearchUsers Query unicode_lower q s =
     (if q = [] then (HttpError 400 ''Search query required'', s)
      else
        (let searchTerm = ToLower unicode_lower q in
         case Query (SearchUsers_query searchTerm) (db s) of
           (Inl err, d) \<Rightarrow> (HttpError 500 ''Database error'', s\<lparr>db := d\<rparr>)
         | (Inr rows, d) \<Rightarrow> (JSON 200 (ManyUsers (SearchUsers_rows rows [])), s\<lparr>db := d\<rparr>)))"

subsection \<open>Notions the properties are stated with\<close>

text \<open>
  The number of characters of a UTF-8 text: every byte but the continuation bytes
  (\<^verbatim>\<open>0x80..0xBF\<close>) starts one.
\<close>

definition utf8_chars :: "string \<Rightarrow> nat" where
  "utf8_chars s = length (filter (\<lambda>c. byte c < 128 \<or> 192 \<le> byte c) s)"

text \<open>
  For the fields of \<^verbatim>\<open>strings.Fields\<close>: a text is a \<^emph>\<open>boundary\<close> when it is empty or
  starts with a byte that is no continuation byte, and \<^term>\<open>no_space_in f x\<close> says that
  no white-space character starts at a byte of \<^term>\<open>f\<close> when \<^term>\<open>f\<close> is followed by
  \<^term>\<open>x\<close>.
\<close>

definition boundary :: "string \<Rightarrow> bool" where
  "boundary x = (case x of [] \<Rightarrow> True | c # r \<Rightarrow> byte c < 128 \<or> 192 \<le> byte c)"

fun no_space_in :: "string \<Rightarrow> string \<Rightarrow> bool" where
  "no_space_in [] x = True"
| "no_space_in (c # cs) x = (space_width (c # cs @ x) = 0 \<and> no_space_in cs x)"

text \<open>What a row contributes to a response: nothing when it fails to scan.\<close>

definition decoded :: "Row \<Rightarrow> User option" where
  "decoded r =
     (case Scan r of
        Inl err \<Rightarrow> None
      | Inr (user, created) \<Rightarrow> Some (processUserData (user\<lparr>Created := RFC3339 created\<rparr>)))"

text \<open>\<^term>\<open>n\<close> calls of \<^verbatim>\<open>GetUser\<close> for the same path, one after the other, and their responses.\<close>

fun GetUser_repeat ::
  "'db QueryRow_user \<Rightarrow> string \<Rightarrow> nat \<Rightarrow> 'db UserService \<Rightarrow> Response list \<times> 'db UserService" where
  "GetUser_repeat QueryRow vars_id 0 s = ([], s)"
| "GetUser_repeat QueryRow vars_id (Suc n) s =
     (case GetUser QueryRow vars_id s of
        (r, s1) \<Rightarrow> (case GetUser_repeat QueryRow vars_id n s1 of (rs, s2) \<Rightarrow> (r # rs, s2)))"

text \<open>
  Every address in the cache has been handed out: the states the handlers build from
  \<^term>\<open>NewUserService\<close> are of this kind.
\<close>

definition wf_cache :: "'db UserService \<Rightarrow> bool" where
  "wf_cache s = (\<forall>k a. cache s k = Some a \<longrightarrow> a < free s)"

text \<open>A run of \<^verbatim>\<open>GetUser\<close> calls, one for each path id of a list, and their responses.\<close>

fun GetUser_run ::
  "'db QueryRow_user \<Rightarrow> string list \<Rightarrow> 'db UserService \<Rightarrow> Response list \<times> 'db UserService" where
  "GetUser_run QueryRow [] s = ([], s)"
| "GetUser_run QueryRow (vars_id # rest) s =
     (case GetUser QueryRow vars_id s of
        (r, s1) \<Rightarrow> (case GetUser_run QueryRow rest s1 of (rs, s2) \<Rightarrow> (r # rs, s2)))"

subsection \<open>Databases to run the handlers on\<close>

text \<open>
  \<^term>\<open>answering r\<close> gives the answer \<^term>\<open>r\<close> to every statement; \<^term>\<open>recording r\<close>
  does the same and keeps the texts it was sent, in order, as its state.
\<close>

definition answering :: "'r \<Rightarrow> string \<Rightarrow> 'db \<Rightarrow> 'r \<times> 'db" where
  "answering r text d = (r, d)"

definition recording :: "'r \<Rightarrow> string \<Rightarrow> string list \<Rightarrow> 'r \<times> string list" where
  "recording r text sent = (r, sent @ [text])"

text \<open>
  A model of how PostgreSQL answers the statement of \<^verbatim>\<open>SearchUsers\<close> on a table, for
  ASCII data. \<^term>\<open>like_match p s\<close> is \<^verbatim>\<open>s LIKE p\<close>: in a pattern \<^verbatim>\<open>%\<close> stands for any
  sequence of characters, \<^verbatim>\<open>_\<close> for any single character, a backslash makes the next
  character stand for itself, and every other character stands for itself. (A pattern
  that ends in a lone backslash is an error in PostgreSQL; the patterns of the service
  end in \<^verbatim>\<open>%\<close>.) \<^verbatim>\<open>LOWER\<close> maps \<^verbatim>\<open>A..Z\<close> to \<^verbatim>\<open>a..z\<close>. A \<^verbatim>\<open>NULL\<close> bio matches no pattern.
\<close>

fun like_match :: "string \<Rightarrow> string \<Rightarrow> bool" where
  "like_match [] s = (s = [])"
| "like_match (p # ps) [] = (p = CHR ''%'' \<and> like_match ps [])"
| "like_match (p # ps) (c # cs) =
     (if p = CHR ''%'' then like_match ps (c # cs) \<or> like_match (p # ps) cs
      else if p = CHR ''_'' then like_match ps cs
      else if p = CHR 0x5C then (case ps of [] \<Rightarrow> False | e # es \<Rightarrow> e = c \<and> like_match es cs)
      else p = c \<and> like_match ps cs)"

definition LOWER :: "string \<Rightarrow> string" where
  "LOWER s = map ascii_lower s"

text \<open>
  The statement text is read by cutting it at its quote characters: the text of
  \<^verbatim>\<open>SearchUsers\<close> has three quoted patterns between four fixed pieces, the pieces that
  the text for the empty term has. Any other text is outside this model and answered
  with an error.
\<close>

fun split_quotes :: "string \<Rightarrow> string \<Rightarrow> string list" where
  "split_quotes cur [] = [cur]"
| "split_quotes cur (c # cs) =
     (if c = CHR 0x27 then cur # split_quotes [] cs else split_quotes (cur @ [c]) cs)"

definition search_rows :: "string \<Rightarrow> string \<Rightarrow> string \<Rightarrow> Row list \<Rightarrow> Row list" where
  "search_rows p1 p2 p3 table =
     filter (\<lambda>r. like_match p1 (LOWER (col_username r)) \<or> like_match p2 (LOWER (col_email r))
               \<or> (case col_bio r of None \<Rightarrow> False | Some b \<Rightarrow> like_match p3 (LOWER b))) table"

definition postgres_search :: "Row list Query_users" where
  "postgres_search text table =
     (case split_quotes [] text of
        [h, p1, m1, p2, m2, p3, e] \<Rightarrow>
          if split_quotes [] (SearchUsers_query []) = [h, ''%%'', m1, ''%%'', m2, ''%%'', e]
          then (Inr (search_rows p1 p2 p3 table), table)
          else (Inl ErrOther, table)
      | _ \<Rightarrow> (Inl ErrOther, table))"

text \<open>
  A term without the pattern characters of \<^verbatim>\<open>LIKE\<close> and without a quote, and the rows
  of a table in which such a term occurs, in the username, the email or the bio.
\<close>

definition plain_term :: "string \<Rightarrow> bool" where
  "plain_term t =
     list_all (\<lambda>c. c \<noteq> CHR ''%'' \<and> c \<noteq> CHR ''_'' \<and> c \<noteq> CHR 0x5C \<and> c \<noteq> CHR 0x27) t"

definition rows_containing :: "string \<Rightarrow> Row list \<Rightarrow> Row list" where
  "rows_containing t table =
     filter (\<lambda>r. Contains (LOWER (col_username r)) t \<or> Contains (LOWER (col_email r)) t
               \<or> (case col_bio r of None \<Rightarrow> False | Some b \<Rightarrow> Contains (LOWER b) t)) table"

text \<open>The same for the statement of \<^verbatim>\<open>GetUser\<close>: the first row of the table with the id.\<close>

definition postgres_select_by_id :: "Row list QueryRow_user" where
  "postgres_select_by_id text table =
     (if has_prefix text ''SELECT * FROM users WHERE id = '' then
        (case Atoi (drop (length ''SELECT * FROM users WHERE id = '') text) of
           None \<Rightarrow> Inl ErrOther
         | Some i \<Rightarrow>
             (case find (\<lambda>r. col_id r = i) table of None \<Rightarrow> Inl ErrNoRows | Some r \<Rightarrow> Inr r))
      else Inl ErrOther)"

text \<open>
  The same for the statement of \<^verbatim>\<open>UpdateUser\<close>, which has three quoted values between
  four fixed pieces, the last one ending in the id. The rows with the id get the three
  values, and the answer is their number; the statement fails when a row is to be
  changed and a value is too long for its column (\<^verbatim>\<open>VARCHAR(50)\<close>, \<^verbatim>\<open>VARCHAR(100)\<close>)
  or another row has the username or the email (\<^verbatim>\<open>UNIQUE\<close>). A text with another
  number of quotes is not of this shape: with an odd number a literal is left open,
  which is a syntax error.
\<close>

definition update_rows ::
  "int \<Rightarrow> string \<Rightarrow> string \<Rightarrow> string \<Rightarrow> Row list \<Rightarrow> (sql_error + nat) \<times> Row list" where
  "update_rows i u e b table =
     (if list_ex (\<lambda>r. col_id r = i) table
         \<and> (50 < length u \<or> 100 < length e
             \<or> list_ex (\<lambda>r. (col_username r = u \<or> col_email r = e) \<and> col_id r \<noteq> i) table)
      then (Inl ErrOther, table)
      else (Inr (length (filter (\<lambda>r. col_id r = i) table)),
            map (\<lambda>r. if col_id r = i
                      then r\<lparr>col_username := u, col_email := e, col_bio := Some b\<rparr> else r) table))"

definition postgres_update :: "Row list Exec_update" where
  "postgres_update text table =
     (case split_quotes [] text of
        [h, u, m1, e, m2, b, w] \<Rightarrow>
          (case Atoi (drop (length '' WHERE id='') w) of
             None \<Rightarrow> (Inl ErrOther, table)
           | Some i \<Rightarrow>
               if split_quotes [] (UpdateUser_query zero_User i) = [h, [], m1, [], m2, [], w]
               then update_rows i u e b table
               else (Inl ErrOther, table))
      | _ \<Rightarrow> (Inl ErrOther, table))"

text \<open>
  A table kept newest first: \<^term>\<open>inserting row\<close> is the store's answer to an \<^verbatim>\<open>INSERT\<close>
  that adds \<^term>\<open>row\<close> and returns its id, and \<^term>\<open>listing\<close> its answer to the statement
  of \<^verbatim>\<open>ListUsers\<close>, all rows in the order of the table.
\<close>

definition inserting :: "Row \<Rightarrow> Row list QueryRow_id" where
  "inserting row text table = (Inr (col_id row), row # table)"

definition listing :: "Row list Query_users" where
  "listing text table = (Inr table, table)"

subsection \<open>Requests and rows used as examples\<close>

definition valid_user :: User where
  "valid_user =
     \<lparr>ID = 0, Username = ''validUser1'', Email = ''user@example.com'', Bio = ''Test bio content'',
      Created = []\<rparr>"

definition short_name_user :: User where
  "short_name_user = valid_user\<lparr>Username := ''ab''\<rparr>"

definition spam_user :: User where
  "spam_user = valid_user\<lparr>Bio := ''this is spam content''\<rparr>"

definition quoting_user :: User where
  "quoting_user = valid_user\<lparr>Bio := ''x'); DROP TABLE users; --''\<rparr>"

definition accented_bio :: string where
  "accented_bio = concat (replicate 501 [CHR 0xC3, CHR 0xA9])"

definition alice_row :: Row where
  "alice_row =
     \<lparr>col_id = 1, col_username = ''alice'', col_email = ''alice@x.com'',
      col_bio = Some ''likes  long   walks'', col_created = Some (Time ''2024-05-01T10:00:00Z'')\<rparr>"

definition bob_row :: Row where
  "bob_row =
     \<lparr>col_id = 2, col_username = ''bob'', col_email = ''bob@x.com'',
      col_bio = Some ''user profile'', col_created = Some (Time ''2024-05-02T10:00:00Z'')\<rparr>"

definition null_bio_row :: Row where
  "null_bio_row =
     \<lparr>col_id = 3, col_username = ''carol'', col_email = ''carol@x.com'',
      col_bio = None, col_created = Some (Time ''2024-05-03T10:00:00Z'')\<rparr>"

definition abc_row :: Row where
  "abc_row =
     \<lparr>col_id = 4, col_username = ''abc'', col_email = ''abc@x.com'',
      col_bio = Some ''hello'', col_created = Some (Time ''2024-05-04T10:00:00Z'')\<rparr>"

definition apostrophe_user :: User where
  "apostrophe_user = valid_user\<lparr>Bio := ''it's''\<rparr>"

text \<open>The row that the \<^verbatim>\<open>INSERT\<close> for \<^term>\<open>valid_user\<close> at \<^verbatim>\<open>2026-01-01T00:00:00Z\<close> adds, under id 7.\<close>

definition created_row :: Row where
  "created_row =
     \<lparr>col_id = 7, col_username = ''validUser1'', col_email = ''user@example.com'',
      col_bio = Some ''Test bio content'', col_created = Some (Time ''2026-01-01T00:00:00Z'')\<rparr>"

section \<open>Properties\<close>

lemmas char_defs = byte_def is_lower_def is_upper_def is_digit_def is_letter_def ascii_space_def
  word_class_def local_class_def domain_class_def

lemmas example_defs = valid_user_def short_name_user_def spam_user_def quoting_user_def
  alice_row_def bob_row_def null_bio_row_def abc_row_def

subsection \<open>What the regular expressions and \<^verbatim>\<open>Contains\<close> accept\<close>

lemma MatchString_Rep:
  "MatchString (Rep cls lo hi # ps) s =
     (\<exists>a b. s = a @ b \<and> lo \<le> length a \<and> (case hi of None \<Rightarrow> True | Some h \<Rightarrow> length a \<le> h)
        \<and> list_all cls a \<and> MatchString ps b)"
proof
  assume "MatchString (Rep cls lo hi # ps) s"
  then obtain k where k: "lo \<le> k"
      "k \<le> (case hi of None \<Rightarrow> length s | Some h \<Rightarrow> min h (length s))"
      "list_all cls (take k s)" "MatchString ps (drop k s)"
    by (auto simp: list_ex_iff)
  have "s = take k s @ drop k s" by simp
  moreover have "length (take k s) = k" using k(2) by (auto split: option.splits)
  moreover have "(case hi of None \<Rightarrow> True | Some h \<Rightarrow> k \<le> h)"
    using k(2) by (auto split: option.splits)
  ultimately show "\<exists>a b. s = a @ b \<and> lo \<le> length a
      \<and> (case hi of None \<Rightarrow> True | Some h \<Rightarrow> length a \<le> h) \<and> list_all cls a \<and> MatchString ps b"
    using k by metis
next
  assume "\<exists>a b. s = a @ b \<and> lo \<le> length a
      \<and> (case hi of None \<Rightarrow> True | Some h \<Rightarrow> length a \<le> h) \<and> list_all cls a \<and> MatchString ps b"
  then obtain a b where ab: "s = a @ b" "lo \<le> length a"
      "(case hi of None \<Rightarrow> True | Some h \<Rightarrow> length a \<le> h)" "list_all cls a" "MatchString ps b"
    by blast
  have "length a \<in> set [lo ..< Suc (case hi of None \<Rightarrow> length s | Some h \<Rightarrow> min h (length s))]"
    using ab(1,2,3) by (auto split: option.splits)
  moreover have "list_all cls (take (length a) s) \<and> MatchString ps (drop (length a) s)"
    using ab by simp
  ultimately show "MatchString (Rep cls lo hi # ps) s"
    unfolding MatchString.simps list_ex_iff by blast
qed

lemma usernameRegex_iff:
  "MatchString usernameRegex s = (3 \<le> length s \<and> length s \<le> 20 \<and> list_all word_class s)"
  unfolding usernameRegex_def MatchString_Rep by auto

lemma MatchString_lit:
  "MatchString (lit x # ps) s = (\<exists>b. s = x # b \<and> MatchString ps b)"
proof -
  have one: "(1 \<le> length a \<and> length a \<le> 1 \<and> list_all (\<lambda>c. c = x) a) = (a = [x])"
    for a :: string
    by (cases a) auto
  have "MatchString (lit x # ps) s =
          (\<exists>a b. s = a @ b \<and> (1 \<le> length a \<and> length a \<le> 1 \<and> list_all (\<lambda>c. c = x) a)
             \<and> MatchString ps b)"
    unfolding lit_def MatchString_Rep by simp
  also have "\<dots> = (\<exists>b. s = x # b \<and> MatchString ps b)"
    unfolding one by auto
  finally show ?thesis .
qed

lemma MatchString_plus:
  "MatchString (Rep cls 1 None # ps) s =
     (\<exists>a b. s = a @ b \<and> a \<noteq> [] \<and> list_all cls a \<and> MatchString ps b)"
  unfolding MatchString_Rep by (simp add: Suc_le_eq)

lemma MatchString_tail:
  "MatchString [Rep cls 2 None] s = (2 \<le> length s \<and> list_all cls s)"
  unfolding MatchString_Rep by simp

lemma emailRegex_iff:
  "MatchString emailRegex s =
     (\<exists>l d t. s = l @ ''@'' @ d @ ''.'' @ t \<and> l \<noteq> [] \<and> list_all local_class l \<and> d \<noteq> []
        \<and> list_all domain_class d \<and> 2 \<le> length t \<and> list_all is_letter t)"
  unfolding emailRegex_def MatchString_plus MatchString_lit MatchString_tail
  by (simp only: append_Cons append_Nil) blast

lemma has_prefix_iff: "has_prefix s p = (\<exists>r. s = p @ r)"
  by (induction s p rule: has_prefix.induct) auto

lemma Contains_iff: "Contains s sub = (\<exists>a b. s = a @ sub @ b)"
proof (induction s)
  case Nil
  show ?case by auto
next
  case (Cons c cs)
  show ?case
  proof
    assume "Contains (c # cs) sub"
    then consider "has_prefix (c # cs) sub" | "Contains cs sub" by auto
    then show "\<exists>a b. c # cs = a @ sub @ b"
    proof cases
      case 1
      then obtain r where "c # cs = sub @ r" by (auto simp: has_prefix_iff)
      then have "c # cs = [] @ sub @ r" by simp
      then show ?thesis by blast
    next
      case 2
      then obtain a b where "cs = a @ sub @ b" using Cons.IH by blast
      then have "c # cs = (c # a) @ sub @ b" by simp
      then show ?thesis by blast
    qed
  next
    assume "\<exists>a b. c # cs = a @ sub @ b"
    then obtain a b where ab: "c # cs = a @ sub @ b" by blast
    show "Contains (c # cs) sub"
    proof (cases a)
      case Nil
      then have "has_prefix (c # cs) sub" using ab by (auto simp: has_prefix_iff)
      then show ?thesis by simp
    next
      case (Cons x xs)
      then have "cs = xs @ sub @ b" using ab by simp
      then have "Contains cs sub" using Cons.IH by blast
      then show ?thesis by simp
    qed
  qed
qed

lemma Contains_sublist: "Contains s sub = sublist sub s"
  by (simp add: Contains_iff sublist_def)

lemma Contains_set: "Contains s sub \<Longrightarrow> set sub \<subseteq> set s"
  by (auto simp: Contains_iff)

subsection \<open>Validation\<close>

lemma validateUser_iff:
  "validateUser u =
     (MatchString usernameRegex (Username u) \<and> MatchString emailRegex (Email u)
      \<and> length (Bio u) \<le> 1000 \<and> \<not> Contains (Bio u) ''spam'')"
  by (auto simp: validateUser_def)

lemma valid_username: "MatchString usernameRegex ''validUser1''"
  by (simp add: usernameRegex_iff char_defs)

lemma valid_email: "MatchString emailRegex ''user@example.com''"
  unfolding emailRegex_iff
  by (rule exI [of _ "''user''"], rule exI [of _ "''example''"], rule exI [of _ "''com''"])
     (simp add: char_defs)

lemma valid_user_ok: "validateUser valid_user"
  by (simp add: validateUser_iff valid_user_def valid_username valid_email)

lemma quoting_user_ok: "validateUser quoting_user"
  by (simp add: validateUser_iff valid_user_def quoting_user_def valid_username valid_email)

lemma spam_user_bad: "\<not> validateUser spam_user"
  by (simp add: validateUser_iff valid_user_def spam_user_def)

lemma short_user_bad: "\<not> validateUser short_name_user"
  by (simp add: validateUser_iff valid_user_def short_name_user_def usernameRegex_iff)

lemma Atoi_1: "Atoi ''1'' = Some 1"
  by (simp add: Atoi_def char_defs)

text \<open>The examples of the specification.\<close>

lemma not_an_email: "\<not> MatchString emailRegex ''not-an-email''"
  by (simp add: emailRegex_def lit_def char_defs)

lemma validation_examples:
  "\<not> validateUser (valid_user\<lparr>Username := ''ab''\<rparr>)"
  "validateUser (valid_user\<lparr>Username := ''validUser1''\<rparr>)"
  "\<not> validateUser (valid_user\<lparr>Email := ''not-an-email''\<rparr>)"
  "\<not> validateUser (valid_user\<lparr>Bio := replicate 1001 (CHR ''a'')\<rparr>)"
  "\<not> validateUser (valid_user\<lparr>Bio := ''this is spam content''\<rparr>)"
  using valid_user_ok not_an_email
  by (simp_all add: validateUser_iff valid_user_def usernameRegex_iff)

text \<open>
  C6, as amended. \<^verbatim>\<open>validateUser\<close> accepts a candidate exactly when the four rules hold:
  the username matches \<^verbatim>\<open>^[a-zA-Z0-9_]{3,20}$\<close> (3 to 20 letters, digits or
  underscores), the email matches the email pattern (\<^verbatim>\<open>local@domain.tld\<close>), the bio has
  at most 1000 bytes and the bio does not contain \<^verbatim>\<open>spam\<close> as a contiguous run. It
  returns a truth value only: whichever rule fails, \<^verbatim>\<open>CreateUser\<close> and \<^verbatim>\<open>UpdateUser\<close>
  answer 400 \<^verbatim>\<open>Invalid user data\<close> and leave the state as it was.
\<close>

theorem validateUser_accepts_iff_rules_hold:
  "validateUser user =
     (MatchString usernameRegex (Username user) \<and> MatchString emailRegex (Email user)
      \<and> length (Bio user) \<le> 1000 \<and> \<not> Contains (Bio user) ''spam'')
   \<and> MatchString usernameRegex (Username user) =
       (3 \<le> length (Username user) \<and> length (Username user) \<le> 20
        \<and> list_all word_class (Username user))
   \<and> MatchString emailRegex (Email user) =
       (\<exists>l d t. Email user = l @ ''@'' @ d @ ''.'' @ t \<and> l \<noteq> [] \<and> list_all local_class l
          \<and> d \<noteq> [] \<and> list_all domain_class d \<and> 2 \<le> length t \<and> list_all is_letter t)
   \<and> Contains (Bio user) ''spam'' = sublist ''spam'' (Bio user)
   \<and> (\<not> validateUser user \<longrightarrow>
        CreateUser QueryRow now (Some user) s = (HttpError 400 ''Invalid user data'', s)
        \<and> (Atoi vars_id = None \<or>
             UpdateUser Exec vars_id (Some user) s = (HttpError 400 ''Invalid user data'', s)))"
proof -
  have "CreateUser QueryRow now (Some user) s = (HttpError 400 ''Invalid user data'', s)"
    if "\<not> validateUser user"
    using that by (simp add: CreateUser_def)
  moreover have "Atoi vars_id = None \<or>
      UpdateUser Exec vars_id (Some user) s = (HttpError 400 ''Invalid user data'', s)"
    if "\<not> validateUser user"
    using that by (cases "Atoi vars_id") (simp_all add: UpdateUser_def)
  ultimately have rejected: "\<not> validateUser user \<longrightarrow>
        CreateUser QueryRow now (Some user) s = (HttpError 400 ''Invalid user data'', s)
        \<and> (Atoi vars_id = None \<or>
             UpdateUser Exec vars_id (Some user) s = (HttpError 400 ''Invalid user data'', s))"
    by blast
  show ?thesis
    using validateUser_iff [of user] usernameRegex_iff [of "Username user"]
      emailRegex_iff [of "Email user"] Contains_sublist [of "Bio user" "''spam''"] rejected
    by (intro conjI)
qed

theorem validateUser_accepts_iff_rules_hold_witness:
  "\<not> validateUser spam_user
   \<and> MatchString usernameRegex (Username spam_user) \<and> MatchString emailRegex (Email spam_user)
   \<and> length (Bio spam_user) \<le> 1000 \<and> Contains (Bio spam_user) ''spam''
   \<and> CreateUser (answering (Inr 1)) ''2026-01-01T00:00:00Z'' (Some spam_user) (NewUserService ())
       = (HttpError 400 ''Invalid user data'', NewUserService ())
   \<and> UpdateUser (answering (Inr 1)) ''1'' (Some spam_user) (NewUserService ())
       = (HttpError 400 ''Invalid user data'', NewUserService ())"
  using spam_user_bad Atoi_1 validateUser_accepts_iff_rules_hold
      [of spam_user "answering (Inr 1)" "''2026-01-01T00:00:00Z''" "NewUserService ()" "''1''"
        "answering (Inr 1)"]
  by (simp add: spam_user_def valid_user_def valid_username valid_email)

text \<open>
  C6 as stated fails: a candidate whose username is too short and a candidate whose bio
  contains \<^verbatim>\<open>spam\<close> fail different rules and get the same result and the same response,
  so no kind of failure is reported.
\<close>

theorem validateUser_reports_no_kind:
  "\<not> MatchString usernameRegex (Username short_name_user)
   \<and> MatchString usernameRegex (Username spam_user) \<and> MatchString emailRegex (Email spam_user)
   \<and> length (Bio spam_user) \<le> 1000 \<and> Contains (Bio spam_user) ''spam''
   \<and> validateUser short_name_user = validateUser spam_user
   \<and> CreateUser (answering (Inr 1)) ''2026-01-01T00:00:00Z'' (Some short_name_user) (NewUserService ())
       = CreateUser (answering (Inr 1)) ''2026-01-01T00:00:00Z'' (Some spam_user) (NewUserService ())"
proof -
  have "\<not> MatchString usernameRegex (Username short_name_user)"
    by (simp add: short_name_user_def valid_user_def usernameRegex_iff)
  moreover have "MatchString usernameRegex (Username spam_user)"
    "MatchString emailRegex (Email spam_user)"
    "length (Bio spam_user) \<le> 1000" "Contains (Bio spam_user) ''spam''"
    by (simp_all add: spam_user_def valid_user_def valid_username valid_email)
  ultimately show ?thesis
    using spam_user_bad short_user_bad by (simp add: CreateUser_def)
qed

subsection \<open>The bio limit\<close>

lemma accented_bio_length: "length accented_bio = 1002"
  by (simp add: accented_bio_def length_concat sum_list_replicate)

lemma utf8_chars_accented: "utf8_chars (concat (replicate n [CHR 0xC3, CHR 0xA9])) = n"
  by (induction n) (simp_all add: utf8_chars_def byte_def)

lemma accented_bio_chars: "utf8_chars accented_bio = 501"
  by (simp add: accented_bio_def utf8_chars_accented)

lemma accented_bio_no_spam: "\<not> Contains accented_bio ''spam''"
proof
  assume "Contains accented_bio ''spam''"
  then have "set ''spam'' \<subseteq> set accented_bio" by (rule Contains_set)
  moreover have "set accented_bio \<subseteq> {CHR 0xC3, CHR 0xA9}"
    by (auto simp: accented_bio_def)
  ultimately show False by auto
qed

text \<open>
  C10. \<^verbatim>\<open>len(user.Bio)\<close> counts bytes: a candidate whose bio has more than 1000 bytes is
  rejected, so the bio of 501 two-byte characters (\<^verbatim>\<open>U+00E9\<close>), which is within 1000
  characters and free of \<^verbatim>\<open>spam\<close>, is rejected by the length rule alone: the same
  candidate with an empty bio is accepted.
\<close>

theorem bio_limit_counts_bytes:
  "(1000 < length (Bio user) \<longrightarrow> \<not> validateUser user)
   \<and> utf8_chars accented_bio \<le> 1000
   \<and> validateUser (valid_user\<lparr>Bio := []\<rparr>)
   \<and> \<not> Contains accented_bio ''spam''
   \<and> \<not> validateUser (valid_user\<lparr>Bio := accented_bio\<rparr>)"
  using valid_user_ok
  by (simp add: validateUser_iff valid_user_def accented_bio_length accented_bio_no_spam
        accented_bio_chars)

theorem bio_limit_counts_bytes_witness:
  "1000 < length (Bio (valid_user\<lparr>Bio := accented_bio\<rparr>))
   \<and> utf8_chars accented_bio = 501
   \<and> \<not> validateUser (valid_user\<lparr>Bio := accented_bio\<rparr>)"
  using bio_limit_counts_bytes [of "valid_user\<lparr>Bio := accented_bio\<rparr>"]
  by (simp add: accented_bio_length accented_bio_chars)


subsection \<open>Batch reads and rows that fail to decode\<close>

lemma ListUsers_rows_eq:
  "ListUsers_rows rows users =
     (if list_ex (\<lambda>r. decoded r = None) rows then Inl (HttpError 500 ''Database error'')
      else Inr (users @ List.map_filter decoded rows))"
  by (induction rows arbitrary: users)
     (auto simp: decoded_def List.map_filter_simps split: sum.splits prod.splits)

lemma SearchUsers_rows_eq:
  "SearchUsers_rows rows users = users @ List.map_filter decoded rows"
  by (induction rows arbitrary: users)
     (auto simp: decoded_def List.map_filter_simps split: sum.splits prod.splits)

lemma decoded_examples:
  "decoded alice_row =
     Some \<lparr>ID = 1, Username = ''alice'', Email = ''alice@x.com'', Bio = ''likes long walks'',
           Created = ''2024-05-01T10:00:00Z''\<rparr>"
  "decoded bob_row =
     Some \<lparr>ID = 2, Username = ''bob'', Email = ''bob@x.com'', Bio = ''user profile'',
           Created = ''2024-05-02T10:00:00Z''\<rparr>"
  "decoded null_bio_row = None"
  "decoded abc_row =
     Some \<lparr>ID = 4, Username = ''abc'', Email = ''abc@x.com'', Bio = ''hello'',
           Created = ''2024-05-04T10:00:00Z''\<rparr>"
  by (simp_all add: decoded_def Scan_def processUserData_def Fields_def example_defs char_defs)

text \<open>
  C5. When the store answers the statement of \<^verbatim>\<open>ListUsers\<close> with rows of which one fails
  to decode, the handler answers 500 \<^verbatim>\<open>Database error\<close> and no sequence (the cache is
  not touched); when all rows decode it answers them all. \<^verbatim>\<open>SearchUsers\<close> answers 200
  with the rows that decode, in the order of the store, and passes over the other rows.
\<close>

theorem decode_failure_List_aborts_Search_skips:
  assumes "Query ListUsers_query (db s) = (Inr rows, d)"
    and "q \<noteq> []"
    and "Query (SearchUsers_query (ToLower unicode_lower q)) (db s) = (Inr found, d')"
  shows "(list_ex (\<lambda>r. decoded r = None) rows \<longrightarrow>
            ListUsers Query per_iteration s =
              (HttpError 500 ''Database error'', s\<lparr>requestCount := requestCount s + 1, db := d\<rparr>))
       \<and> (\<not> list_ex (\<lambda>r. decoded r = None) rows \<longrightarrow>
            fst (ListUsers Query per_iteration s) = JSON 200 (ManyUsers (List.map_filter decoded rows)))
       \<and> SearchUsers Query unicode_lower q s =
            (JSON 200 (ManyUsers (List.map_filter decoded found)), s\<lparr>db := d'\<rparr>)"
  using assms by (simp add: ListUsers_def SearchUsers_def ListUsers_rows_eq SearchUsers_rows_eq)

theorem decode_failure_List_aborts_Search_skips_witness:
  "ListUsers (answering (Inr [alice_row, null_bio_row, bob_row])) True (NewUserService ())
     = (HttpError 500 ''Database error'', (NewUserService ())\<lparr>requestCount := 1\<rparr>)
   \<and> SearchUsers (answering (Inr [alice_row, null_bio_row, bob_row])) id ''o'' (NewUserService ())
     = (JSON 200 (ManyUsers
          [\<lparr>ID = 1, Username = ''alice'', Email = ''alice@x.com'', Bio = ''likes long walks'',
             Created = ''2024-05-01T10:00:00Z''\<rparr>,
           \<lparr>ID = 2, Username = ''bob'', Email = ''bob@x.com'', Bio = ''user profile'',
             Created = ''2024-05-02T10:00:00Z''\<rparr>]), NewUserService ())"
  using decode_failure_List_aborts_Search_skips
    [of "answering (Inr [alice_row, null_bio_row, bob_row])" "NewUserService ()"
      "[alice_row, null_bio_row, bob_row]" "()" "''o''" id "[alice_row, null_bio_row, bob_row]" "()"
      True]
  by (simp add: answering_def decoded_examples List.map_filter_simps NewUserService_def)

subsection \<open>UpdateUser when the store reports no affected row\<close>

text \<open>
  The path of \<^verbatim>\<open>UpdateUser\<close> for zero affected rows: when the store answers the
  statement of a valid candidate with zero affected rows, the handler answers 404
  \<^verbatim>\<open>User not found\<close>, and the cache is what it was: the map from ids to addresses and
  the records at the addresses are unchanged. Whether the store gives that answer for
  an id it does not have depends on the text it is sent, as shown further down.
\<close>

theorem UpdateUser_absent_id_NotFound:
  assumes "Atoi vars_id = Some i"
    and "validateUser user"
    and "Exec (UpdateUser_query user i) (db s) = (Inr 0, d)"
  shows "UpdateUser Exec vars_id (Some user) s = (HttpError 404 ''User not found'', s\<lparr>db := d\<rparr>)
       \<and> cache (snd (UpdateUser Exec vars_id (Some user) s)) = cache s
       \<and> heap (snd (UpdateUser Exec vars_id (Some user) s)) = heap s
       \<and> cached (snd (UpdateUser Exec vars_id (Some user) s)) = cached s"
  using assms by (simp add: UpdateUser_def cached_def fun_eq_iff)

lemma Atoi_999999: "Atoi ''999999'' = Some 999999"
  by (simp add: Atoi_def char_defs)

theorem UpdateUser_absent_id_NotFound_witness:
  "Atoi ''999999'' = Some 999999 \<and> validateUser valid_user
   \<and> UpdateUser (answering (Inr 0)) ''999999'' (Some valid_user)
        (snd (CreateUser (answering (Inr 1)) ''2026-01-01T00:00:00Z'' (Some valid_user) (NewUserService ())))
      = (HttpError 404 ''User not found'',
         snd (CreateUser (answering (Inr 1)) ''2026-01-01T00:00:00Z'' (Some valid_user) (NewUserService ())))"
  using Atoi_999999 valid_user_ok UpdateUser_absent_id_NotFound
    [of "''999999''" 999999 valid_user "answering (Inr 0)"
      "snd (CreateUser (answering (Inr 1)) ''2026-01-01T00:00:00Z'' (Some valid_user) (NewUserService ()))"
      "()"]
  by (simp add: answering_def)

subsection \<open>GetUser called again at once\<close>

lemma GetUser_again:
  "GetUser QueryRow vars_id s = (r, s1) \<Longrightarrow> GetUser QueryRow vars_id s1 = (r, s1)"
  by (auto simp: GetUser_def cache_put_def Let_def
        split: option.splits sum.splits sql_error.splits prod.splits)

text \<open>
  Calls of \<^verbatim>\<open>GetUser\<close> for the same id with no other operation between them: any
  number of them give the response of the first call every time, whatever the state
  they start in. A miss stores the record as fetched and answers its processed copy,
  and the hits that follow process the stored record again. With other operations in
  between this is not so, as shown further down.
\<close>

theorem GetUser_repeat_same_output:
  "fst (GetUser_repeat QueryRow vars_id n s) = replicate n (fst (GetUser QueryRow vars_id s))"
proof (induction n arbitrary: s)
  case 0
  show ?case by simp
next
  case (Suc n)
  obtain r s1 where first: "GetUser QueryRow vars_id s = (r, s1)"
    by (cases "GetUser QueryRow vars_id s")
  have "fst (GetUser_repeat QueryRow vars_id n s1) = replicate n (fst (GetUser QueryRow vars_id s1))"
    by (rule Suc.IH)
  also have "GetUser QueryRow vars_id s1 = (r, s1)"
    using first by (rule GetUser_again)
  finally have "fst (GetUser_repeat QueryRow vars_id n s1) = replicate n r"
    by simp
  then show ?case
    using first by (cases "GetUser_repeat QueryRow vars_id n s1") simp
qed

theorem GetUser_repeat_same_output_witness:
  "cache (NewUserService [alice_row, bob_row]) 1 = None
   \<and> cached (snd (GetUser postgres_select_by_id ''1'' (NewUserService [alice_row, bob_row]))) 1
       = Some \<lparr>ID = 1, Username = ''alice'', Email = ''alice@x.com'', Bio = ''likes  long   walks'',
               Created = ''2024-05-01T10:00:00Z''\<rparr>
   \<and> fst (GetUser_repeat postgres_select_by_id ''1'' 3 (NewUserService [alice_row, bob_row]))
       = replicate 3 (JSON 200 (OneUser
           \<lparr>ID = 1, Username = ''alice'', Email = ''alice@x.com'', Bio = ''likes long walks'',
             Created = ''2024-05-01T10:00:00Z''\<rparr>))"
proof -
  have first: "GetUser postgres_select_by_id ''1'' (NewUserService [alice_row, bob_row])
      = (JSON 200 (OneUser
           \<lparr>ID = 1, Username = ''alice'', Email = ''alice@x.com'', Bio = ''likes long walks'',
             Created = ''2024-05-01T10:00:00Z''\<rparr>),
         cache_put 1 \<lparr>ID = 1, Username = ''alice'', Email = ''alice@x.com'',
             Bio = ''likes  long   walks'', Created = ''2024-05-01T10:00:00Z''\<rparr>
           (NewUserService [alice_row, bob_row]))"
    using Atoi_1
    by (simp add: GetUser_def postgres_select_by_id_def GetUser_query_def Itoa_def digit_char_def
          NewUserService_def Scan_def processUserData_def Fields_def alice_row_def char_defs Let_def)
  show ?thesis
    using GetUser_repeat_same_output
      [of postgres_select_by_id "''1''" 3 "NewUserService [alice_row, bob_row]"]
    by (simp add: first) (simp add: cache_put_def cached_def NewUserService_def)
qed


subsection \<open>The statement texts\<close>

lemma Atoi_5: "Atoi ''5'' = Some 5"
  by (simp add: Atoi_def char_defs)

text \<open>
  C1 fails on the code. The statements are built with \<^verbatim>\<open>fmt.Sprintf\<close> from the field
  values: two \<^verbatim>\<open>CreateUser\<close> (or \<^verbatim>\<open>UpdateUser\<close>) requests that differ in the bio only,
  and two searches that differ in the term only, send different texts to the store,
  and a quote in the bio ends the literal it is placed in.
\<close>

theorem statement_text_depends_on_field_values:
  "db (snd (CreateUser (recording (Inr 1)) ''2026-01-01T00:00:00Z'' (Some valid_user) (NewUserService [])))
     = [''INSERT INTO users (username, email, bio, created) VALUES ('validUser1', 'user@example.com', 'Test bio content', '2026-01-01T00:00:00Z') RETURNING id'']
   \<and> db (snd (CreateUser (recording (Inr 1)) ''2026-01-01T00:00:00Z'' (Some quoting_user) (NewUserService [])))
     = [''INSERT INTO users (username, email, bio, created) VALUES ('validUser1', 'user@example.com', 'x'); DROP TABLE users; --', '2026-01-01T00:00:00Z') RETURNING id'']
   \<and> db (snd (UpdateUser (recording (Inr 1)) ''5'' (Some valid_user) (NewUserService [])))
     = [''UPDATE users SET username='validUser1', email='user@example.com', bio='Test bio content' WHERE id=5'']
   \<and> db (snd (UpdateUser (recording (Inr 1)) ''5'' (Some quoting_user) (NewUserService [])))
     = [''UPDATE users SET username='validUser1', email='user@example.com', bio='x'); DROP TABLE users; --' WHERE id=5'']
   \<and> db (snd (SearchUsers (recording (Inr [])) id ''alice'' (NewUserService [])))
     = [SearchUsers_query ''alice'']
   \<and> db (snd (SearchUsers (recording (Inr [])) id ''bob'' (NewUserService [])))
     = [SearchUsers_query ''bob'']
   \<and> SearchUsers_query ''alice'' \<noteq> SearchUsers_query ''bob''"
proof -
  have "ToLower id ''alice'' = ''alice''" "ToLower id ''bob'' = ''bob''"
    by (simp_all add: ToLower_def ascii_lower_def char_defs)
  then show ?thesis
    using valid_user_ok quoting_user_ok Atoi_5
    by (simp add: CreateUser_def UpdateUser_def SearchUsers_def recording_def NewUserService_def
          CreateUser_query_def UpdateUser_query_def SearchUsers_query_def Itoa_def digit_char_def
          quoting_user_def valid_user_def Let_def cache_put_def)
qed

subsection \<open>What ListUsers leaves in the cache\<close>

text \<open>
  C2 fails on the code. The store holds the bio \<^verbatim>\<open>likes  long   walks\<close> for id 1.
  \<^verbatim>\<open>GetUser\<close> puts the record in the cache as it is in the store; \<^verbatim>\<open>ListUsers\<close> puts
  the processed copy there, whose bio is \<^verbatim>\<open>likes long walks\<close>, under either
  reading of its second loop.
\<close>

theorem ListUsers_caches_processed_bio:
  "col_bio alice_row = Some ''likes  long   walks''
   \<and> map_option Bio (cached (snd (GetUser postgres_select_by_id ''1'' (NewUserService [alice_row]))) 1)
       = Some ''likes  long   walks''
   \<and> map_option Bio (cached (snd (ListUsers (answering (Inr [alice_row])) True (NewUserService ()))) 1)
       = Some ''likes long walks''
   \<and> map_option Bio (cached (snd (ListUsers (answering (Inr [alice_row])) False (NewUserService ()))) 1)
       = Some ''likes long walks''"
  using Atoi_1
  by (simp add: GetUser_def ListUsers_def postgres_select_by_id_def answering_def GetUser_query_def
        Itoa_def digit_char_def NewUserService_def backfill_def cache_put_def cached_def Scan_def
        processUserData_def Fields_def alice_row_def char_defs Let_def)

text \<open>
  C3 fails on the code. After \<^verbatim>\<open>ListUsers\<close> on the rows of alice (id 1) and bob (id 2)
  the entry under id 1 does not hold the field values of alice's row: with a loop
  variable per iteration it holds the processed copy (another bio); with one loop
  variable for the whole loop, entries 1 and 2 both point to it and hold bob's record,
  which \<^verbatim>\<open>GetUser\<close> then answers for id 1.
\<close>

theorem ListUsers_entry_is_not_the_row:
  "cached (snd (ListUsers (answering (Inr [alice_row, bob_row])) True (NewUserService ()))) 1
     = Some \<lparr>ID = 1, Username = ''alice'', Email = ''alice@x.com'', Bio = ''likes long walks'',
             Created = ''2024-05-01T10:00:00Z''\<rparr>
   \<and> col_bio alice_row = Some ''likes  long   walks''
   \<and> cached (snd (ListUsers (answering (Inr [alice_row, bob_row])) False (NewUserService ()))) 1
     = Some \<lparr>ID = 2, Username = ''bob'', Email = ''bob@x.com'', Bio = ''user profile'',
             Created = ''2024-05-02T10:00:00Z''\<rparr>
   \<and> cache (snd (ListUsers (answering (Inr [alice_row, bob_row])) False (NewUserService ()))) 1
     = cache (snd (ListUsers (answering (Inr [alice_row, bob_row])) False (NewUserService ()))) 2
   \<and> fst (GetUser (\<lambda>text d. Inl ErrOther) ''1''
          (snd (ListUsers (answering (Inr [alice_row, bob_row])) False (NewUserService ()))))
     = JSON 200 (OneUser \<lparr>ID = 2, Username = ''bob'', Email = ''bob@x.com'',
                           Bio = ''user profile'', Created = ''2024-05-02T10:00:00Z''\<rparr>)"
  using Atoi_1
  by (simp add: ListUsers_def GetUser_def answering_def NewUserService_def backfill_def
        cache_put_def cached_def Scan_def processUserData_def Fields_def alice_row_def bob_row_def
        char_defs Let_def)

subsection \<open>The record CreateUser returns\<close>

text \<open>
  C4 fails on the code. \<^verbatim>\<open>CreateUser\<close> writes the creation time into the statement and
  nowhere else: the record it returns and caches has the id of the store and the
  submitted username, email and bio, and as \<^verbatim>\<open>created\<close> what the request body held
  (here nothing), while \<^verbatim>\<open>GetUser\<close> on the stored row answers the timestamp.
\<close>

theorem CreateUser_returns_no_created:
  "CreateUser (recording (Inr 7)) ''2026-01-01T00:00:00Z'' (Some valid_user) (NewUserService [])
     = (JSON 201 (OneUser \<lparr>ID = 7, Username = ''validUser1'', Email = ''user@example.com'',
                            Bio = ''Test bio content'', Created = []\<rparr>),
        snd (CreateUser (recording (Inr 7)) ''2026-01-01T00:00:00Z'' (Some valid_user) (NewUserService [])))
   \<and> cached (snd (CreateUser (recording (Inr 7)) ''2026-01-01T00:00:00Z'' (Some valid_user)
         (NewUserService []))) 7
     = Some \<lparr>ID = 7, Username = ''validUser1'', Email = ''user@example.com'',
             Bio = ''Test bio content'', Created = []\<rparr>
   \<and> db (snd (CreateUser (recording (Inr 7)) ''2026-01-01T00:00:00Z'' (Some valid_user) (NewUserService [])))
     = [''INSERT INTO users (username, email, bio, created) VALUES ('validUser1', 'user@example.com', 'Test bio content', '2026-01-01T00:00:00Z') RETURNING id'']
   \<and> fst (GetUser postgres_select_by_id ''1'' (NewUserService [alice_row]))
     = JSON 200 (OneUser \<lparr>ID = 1, Username = ''alice'', Email = ''alice@x.com'',
                           Bio = ''likes long walks'', Created = ''2024-05-01T10:00:00Z''\<rparr>)"
  using valid_user_ok Atoi_1
  by (simp add: CreateUser_def GetUser_def recording_def NewUserService_def cache_put_def cached_def
        CreateUser_query_def postgres_select_by_id_def GetUser_query_def Itoa_def digit_char_def
        Scan_def processUserData_def Fields_def alice_row_def valid_user_def char_defs Let_def)

subsection \<open>Search terms with pattern characters\<close>

text \<open>
  C7 fails on the code. The term is placed in a \<^verbatim>\<open>LIKE\<close> pattern as it is, so \<^verbatim>\<open>_\<close>
  and \<^verbatim>\<open>%\<close> in it are wildcards: the search for \<^verbatim>\<open>a_c\<close> returns the record of
  \<^verbatim>\<open>abc\<close>, although \<^verbatim>\<open>a_c\<close> occurs in none of its fields.
\<close>

theorem SearchUsers_term_is_a_pattern:
  "fst (SearchUsers postgres_search id ''a_c'' (NewUserService [alice_row, abc_row]))
     = JSON 200 (ManyUsers [\<lparr>ID = 4, Username = ''abc'', Email = ''abc@x.com'', Bio = ''hello'',
                              Created = ''2024-05-04T10:00:00Z''\<rparr>])
   \<and> \<not> Contains (ToLower id ''abc'') (ToLower id ''a_c'')
   \<and> \<not> Contains (ToLower id ''abc@x.com'') (ToLower id ''a_c'')
   \<and> \<not> Contains (ToLower id ''hello'') (ToLower id ''a_c'')"
proof -
  have lower: "ToLower id ''a_c'' = ''a_c''" "ToLower id ''abc'' = ''abc''"
    "ToLower id ''abc@x.com'' = ''abc@x.com''" "ToLower id ''hello'' = ''hello''"
    by (simp_all add: ToLower_def ascii_lower_def char_defs)
  have pieces: "split_quotes [] (SearchUsers_query ''a_c'') =
      [[CHR 0x0A, CHR 0x09, CHR 0x09] @ ''SELECT id, username, email, bio, created ''
         @ [CHR 0x0A, CHR 0x09, CHR 0x09] @ ''FROM users ''
         @ [CHR 0x0A, CHR 0x09, CHR 0x09] @ ''WHERE LOWER(username) LIKE '',
       ''%a_c%'', '' '' @ [CHR 0x0A, CHR 0x09, CHR 0x09] @ ''   OR LOWER(email) LIKE '',
       ''%a_c%'', '' '' @ [CHR 0x0A, CHR 0x09, CHR 0x09] @ ''   OR LOWER(bio) LIKE '',
       ''%a_c%'', []]"
    by (simp add: SearchUsers_query_def)
  have shape: "split_quotes [] (SearchUsers_query []) =
      [[CHR 0x0A, CHR 0x09, CHR 0x09] @ ''SELECT id, username, email, bio, created ''
         @ [CHR 0x0A, CHR 0x09, CHR 0x09] @ ''FROM users ''
         @ [CHR 0x0A, CHR 0x09, CHR 0x09] @ ''WHERE LOWER(username) LIKE '',
       ''%%'', '' '' @ [CHR 0x0A, CHR 0x09, CHR 0x09] @ ''   OR LOWER(email) LIKE '',
       ''%%'', '' '' @ [CHR 0x0A, CHR 0x09, CHR 0x09] @ ''   OR LOWER(bio) LIKE '',
       ''%%'', []]"
    by (simp add: SearchUsers_query_def)
  have found: "search_rows ''%a_c%'' ''%a_c%'' ''%a_c%'' [alice_row, abc_row] = [abc_row]"
    by (simp add: search_rows_def LOWER_def ascii_lower_def alice_row_def abc_row_def char_defs)
  have "postgres_search (SearchUsers_query ''a_c'') [alice_row, abc_row]
          = (Inr [abc_row], [alice_row, abc_row])"
    by (simp add: postgres_search_def pieces shape found)
  then show ?thesis
    by (simp add: SearchUsers_def lower NewUserService_def SearchUsers_rows_eq
          List.map_filter_simps decoded_examples)
qed


subsection \<open>Cache policy of the single-record operations\<close>

text \<open>
  Round trip: after a successful \<^verbatim>\<open>CreateUser\<close>, \<^verbatim>\<open>GetUser\<close> for the returned id is
  served from the cache without a statement to the store, and answers the id, the
  submitted username and email, and the submitted bio with its white space collapsed.
\<close>

theorem GetUser_after_CreateUser:
  assumes "validateUser user"
    and "Insert (CreateUser_query user now) (db s) = (Inr i, d)"
    and "Atoi vars_id = Some i"
  shows "fst (GetUser QueryRow vars_id (snd (CreateUser Insert now (Some user) s)))
           = JSON 200 (OneUser (user\<lparr>ID := i, Bio := Join (Fields (Bio user)) '' ''\<rparr>))"
  using assms
  by (simp add: CreateUser_def GetUser_def cache_put_def Let_def processUserData_def)

theorem GetUser_after_CreateUser_witness:
  "fst (GetUser (\<lambda>text d. Inl ErrOther) ''1''
         (snd (CreateUser (answering (Inr 1)) ''2026-01-01T00:00:00Z''
                 (Some (valid_user\<lparr>Bio := ''  two   words ''\<rparr>)) (NewUserService ()))))
     = JSON 200 (OneUser \<lparr>ID = 1, Username = ''validUser1'', Email = ''user@example.com'',
                           Bio = ''two words'', Created = []\<rparr>)"
proof -
  have ok: "validateUser (valid_user\<lparr>Bio := ''  two   words ''\<rparr>)"
    using valid_user_ok by (simp add: validateUser_iff valid_user_def)
  have norm: "Join (Fields ''  two   words '') '' '' = ''two words''"
    by (simp add: Fields_def char_defs)
  show ?thesis
    using GetUser_after_CreateUser [OF ok _ Atoi_1, of "answering (Inr 1)"
        "''2026-01-01T00:00:00Z''" "NewUserService ()" "()" "\<lambda>text d. Inl ErrOther"]
    by (simp add: answering_def valid_user_def norm)
qed

text \<open>
  Invalidate on update: a successful \<^verbatim>\<open>UpdateUser\<close> (the store reports at least one
  affected row) answers the submitted fields under the id of the path, removes the
  cache entry of that id and leaves every other entry as it was.
\<close>

theorem UpdateUser_invalidates:
  assumes "Atoi vars_id = Some i"
    and "validateUser user"
    and "Exec (UpdateUser_query user i) (db s) = (Inr n, d)"
    and "0 < n"
  shows "fst (UpdateUser Exec vars_id (Some user) s) = JSON 200 (OneUser (user\<lparr>ID := i\<rparr>))
       \<and> cached (snd (UpdateUser Exec vars_id (Some user) s)) = (cached s)(i := None)"
  using assms by (auto simp: UpdateUser_def cached_def fun_eq_iff)

theorem UpdateUser_invalidates_witness:
  "fst (UpdateUser (answering (Inr 1)) ''1'' (Some (valid_user\<lparr>Bio := ''new''\<rparr>))
         (snd (CreateUser (answering (Inr 1)) ''2026-01-01T00:00:00Z'' (Some valid_user)
                 (NewUserService ()))))
     = JSON 200 (OneUser \<lparr>ID = 1, Username = ''validUser1'', Email = ''user@example.com'',
                           Bio = ''new'', Created = []\<rparr>)
   \<and> cached (snd (CreateUser (answering (Inr 1)) ''2026-01-01T00:00:00Z'' (Some valid_user)
                 (NewUserService ()))) 1 = Some (valid_user\<lparr>ID := 1\<rparr>)
   \<and> cached (snd (UpdateUser (answering (Inr 1)) ''1'' (Some (valid_user\<lparr>Bio := ''new''\<rparr>))
         (snd (CreateUser (answering (Inr 1)) ''2026-01-01T00:00:00Z'' (Some valid_user)
                 (NewUserService ()))))) 1 = None"
proof -
  have ok: "validateUser (valid_user\<lparr>Bio := ''new''\<rparr>)"
    using valid_user_ok by (simp add: validateUser_iff valid_user_def)
  have created: "cached (snd (CreateUser (answering (Inr 1)) ''2026-01-01T00:00:00Z'' (Some valid_user)
                 (NewUserService ()))) 1 = Some (valid_user\<lparr>ID := 1\<rparr>)"
    using valid_user_ok
    by (simp add: CreateUser_def answering_def cache_put_def cached_def Let_def)
  show ?thesis
    using created UpdateUser_invalidates [OF Atoi_1 ok, of "answering (Inr 1)"
        "snd (CreateUser (answering (Inr 1)) ''2026-01-01T00:00:00Z'' (Some valid_user)
                 (NewUserService ()))" 1 "()"]
    by (simp add: answering_def valid_user_def)
qed

text \<open>
  \<^verbatim>\<open>SearchUsers\<close> never touches the cache, and \<^verbatim>\<open>ListUsers\<close> and \<^verbatim>\<open>SearchUsers\<close> never
  read it: their responses are the same from any two states with the same database.
\<close>

theorem batch_reads_bypass_cache:
  "cache (snd (SearchUsers Query unicode_lower q s)) = cache s
   \<and> heap (snd (SearchUsers Query unicode_lower q s)) = heap s
   \<and> fst (SearchUsers Query unicode_lower q (s\<lparr>cache := c, heap := h, free := f\<rparr>))
       = fst (SearchUsers Query unicode_lower q s)
   \<and> fst (ListUsers Query per_iteration (s\<lparr>cache := c, heap := h, free := f\<rparr>))
       = fst (ListUsers Query per_iteration s)"
  by (simp add: SearchUsers_def ListUsers_def Let_def split: prod.splits sum.splits)


subsection \<open>The second loop of ListUsers\<close>

lemma wf_cache_New: "wf_cache (NewUserService d)"
  by (simp add: wf_cache_def NewUserService_def)

lemma wf_cache_put: "wf_cache s \<Longrightarrow> wf_cache (cache_put i user s)"
  by (auto simp: wf_cache_def cache_put_def less_Suc_eq)

lemma cached_cache_put: "wf_cache s \<Longrightarrow> cached (cache_put i user s) = (cached s)(i \<mapsto> user)"
proof (rule ext)
  fix k
  assume wf: "wf_cache s"
  show "cached (cache_put i user s) k = ((cached s)(i \<mapsto> user)) k"
  proof (cases "cache s k")
    case None
    then show ?thesis by (simp add: cache_put_def cached_def)
  next
    case (Some a)
    then have "a \<noteq> free s" using wf by (auto simp: wf_cache_def)
    then show ?thesis using Some by (simp add: cache_put_def cached_def)
  qed
qed

lemma backfill_fresh_wf: "wf_cache s \<Longrightarrow> wf_cache (backfill_fresh users s)"
  by (induction users arbitrary: s) (simp_all add: wf_cache_put)

lemma backfill_fresh_other:
  "wf_cache s \<Longrightarrow> k \<notin> ID ` set users \<Longrightarrow> cached (backfill_fresh users s) k = cached s k"
  by (induction users arbitrary: s) (simp_all add: wf_cache_put cached_cache_put)

lemma backfill_fresh_in:
  "wf_cache s \<Longrightarrow> distinct (map ID users) \<Longrightarrow> u \<in> set users \<Longrightarrow>
     cached (backfill_fresh users s) (ID u) = Some u"
proof (induction users arbitrary: s)
  case Nil
  then show ?case by simp
next
  case (Cons v users)
  show ?case
  proof (cases "u = v")
    case True
    have "ID v \<notin> ID ` set users" using Cons.prems(2) by auto
    then have "cached (backfill_fresh users (cache_put (ID v) v s)) (ID v)
        = cached (cache_put (ID v) v s) (ID v)"
      using Cons.prems(1) by (intro backfill_fresh_other wf_cache_put)
    then show ?thesis using True Cons.prems(1) by (simp add: cached_cache_put)
  next
    case False
    then have "u \<in> set users" using Cons.prems(3) by simp
    then show ?thesis
      using Cons.IH [of "cache_put (ID v) v s"] Cons.prems by (simp add: wf_cache_put)
  qed
qed

lemma backfill_shared_free: "free (backfill_shared a users s) = free s"
  by (induction users arbitrary: s) simp_all

lemma backfill_shared_heap:
  "heap (backfill_shared a users s) = (if users = [] then heap s else (heap s)(a := last users))"
  by (induction users arbitrary: s) auto

lemma backfill_shared_other:
  "k \<notin> ID ` set users \<Longrightarrow> cache (backfill_shared a users s) k = cache s k"
  by (induction users arbitrary: s) simp_all

lemma backfill_shared_in:
  "k \<in> ID ` set users \<Longrightarrow> cache (backfill_shared a users s) k = Some a"
proof (induction users arbitrary: s)
  case Nil
  then show ?case by simp
next
  case (Cons v users)
  show ?case
  proof (cases "k \<in> ID ` set users")
    case True
    then show ?thesis using Cons.IH by simp
  next
    case False
    then have "k = ID v" using Cons.prems by simp
    then show ?thesis using False by (simp add: backfill_shared_other)
  qed
qed

lemma map_filter_all_decoded:
  "\<not> list_ex (\<lambda>r. decoded r = None) rows \<Longrightarrow>
     List.map_filter decoded rows = map (\<lambda>r. the (decoded r)) rows"
  by (induction rows) (auto simp: List.map_filter_simps)

lemma decoded_ID: "decoded r = Some u \<Longrightarrow> ID u = col_id r"
  by (auto simp: decoded_def Scan_def processUserData_def split: option.splits)

text \<open>
  With a loop variable per iteration (Go 1.22 and later): after a \<^verbatim>\<open>ListUsers\<close> whose
  rows all decode and have distinct ids, the cache holds under the id of every row the
  processed copy of that row, and the entries of all other ids are as before.
\<close>

theorem ListUsers_backfill_per_iteration:
  assumes "Query ListUsers_query (db s) = (Inr rows, d)"
    and "\<not> list_ex (\<lambda>r. decoded r = None) rows"
    and "distinct (map col_id rows)"
    and "wf_cache s"
  shows "(\<forall>r \<in> set rows. cached (snd (ListUsers Query True s)) (col_id r) = decoded r)
       \<and> (\<forall>k. k \<notin> col_id ` set rows \<longrightarrow> cached (snd (ListUsers Query True s)) k = cached s k)"
proof -
  let ?users = "map (\<lambda>r. the (decoded r)) rows"
  let ?s1 = "s\<lparr>requestCount := requestCount s + 1, db := d\<rparr>"
  have dec: "decoded r = Some (the (decoded r))" if "r \<in> set rows" for r
    using assms(2) that by (auto simp: list_ex_iff)
  have ids: "map ID ?users = map col_id rows"
    using dec by (auto dest: decoded_ID)
  have after: "snd (ListUsers Query True s) = backfill_fresh ?users ?s1"
    using assms(1,2)
    by (simp add: ListUsers_def ListUsers_rows_eq map_filter_all_decoded backfill_def)
  have wf: "wf_cache ?s1" using assms(4) by (simp add: wf_cache_def)
  have same: "cached ?s1 = cached s" by (simp add: cached_def fun_eq_iff)
  have "cached (backfill_fresh ?users ?s1) (col_id r) = decoded r" if "r \<in> set rows" for r
  proof -
    have "the (decoded r) \<in> set ?users" using that by simp
    moreover have "distinct (map ID ?users)" unfolding ids by (rule assms(3))
    ultimately have "cached (backfill_fresh ?users ?s1) (ID (the (decoded r))) = Some (the (decoded r))"
      using wf by (intro backfill_fresh_in)
    moreover have "ID (the (decoded r)) = col_id r" using dec [OF that] by (rule decoded_ID)
    ultimately show ?thesis using dec [OF that] by simp
  qed
  moreover have "cached (backfill_fresh ?users ?s1) k = cached s k" if "k \<notin> col_id ` set rows" for k
  proof -
    have "ID ` set ?users = col_id ` set rows"
      using ids by (metis list.set_map)
    then have "k \<notin> ID ` set ?users" using that by simp
    then show ?thesis using wf same by (simp add: backfill_fresh_other)
  qed
  ultimately show ?thesis using after by simp
qed

theorem ListUsers_backfill_per_iteration_witness:
  "cached (snd (ListUsers (answering (Inr [alice_row, bob_row])) True (NewUserService ()))) 1
     = decoded alice_row
   \<and> cached (snd (ListUsers (answering (Inr [alice_row, bob_row])) True (NewUserService ()))) 2
     = decoded bob_row
   \<and> cached (snd (ListUsers (answering (Inr [alice_row, bob_row])) True (NewUserService ()))) 3
     = None"
proof -
  have ids: "col_id alice_row = 1" "col_id bob_row = 2"
    by (simp_all add: alice_row_def bob_row_def)
  have answer: "answering (Inr [alice_row, bob_row]) ListUsers_query (db (NewUserService ()))
      = (Inr [alice_row, bob_row], ())"
    by (simp add: answering_def)
  have decode: "\<not> list_ex (\<lambda>r. decoded r = None) [alice_row, bob_row]"
    by (simp add: decoded_examples)
  have keys: "distinct (map col_id [alice_row, bob_row])"
    by (simp add: ids)
  have empty: "cached (NewUserService ()) 3 = None"
    by (simp add: cached_def NewUserService_def)
  show ?thesis
    using ListUsers_backfill_per_iteration
      [of "answering (Inr [alice_row, bob_row])" "NewUserService ()" "[alice_row, bob_row]" "()",
        OF answer decode keys wf_cache_New] empty
    by (simp add: ids)
qed

text \<open>
  With one loop variable for the whole loop (before Go 1.22): after a \<^verbatim>\<open>ListUsers\<close>
  whose rows all decode, the cache holds under the id of every row the processed copy
  of the last row.
\<close>

theorem ListUsers_backfill_shared:
  assumes "Query ListUsers_query (db s) = (Inr rows, d)"
    and "\<not> list_ex (\<lambda>r. decoded r = None) rows"
    and "rows \<noteq> []"
  shows "\<forall>r \<in> set rows. cached (snd (ListUsers Query False s)) (col_id r) = decoded (last rows)"
proof
  fix r
  assume r: "r \<in> set rows"
  let ?users = "map (\<lambda>r. the (decoded r)) rows"
  let ?s1 = "s\<lparr>requestCount := requestCount s + 1, db := d, free := Suc (free s)\<rparr>"
  have dec: "decoded r = Some (the (decoded r))" if "r \<in> set rows" for r
    using assms(2) that by (auto simp: list_ex_iff)
  have after: "snd (ListUsers Query False s) = backfill_shared (free s) ?users ?s1"
    using assms(1,2)
    by (simp add: ListUsers_def ListUsers_rows_eq map_filter_all_decoded backfill_def)
  have "ID (the (decoded r)) = col_id r" using dec [OF r] by (rule decoded_ID)
  then have "col_id r \<in> ID ` set ?users" using r by force
  then have "cache (backfill_shared (free s) ?users ?s1) (col_id r) = Some (free s)"
    by (rule backfill_shared_in)
  moreover have "heap (backfill_shared (free s) ?users ?s1) (free s) = last ?users"
    using assms(3) by (simp add: backfill_shared_heap)
  moreover have "last ?users = the (decoded (last rows))"
    using assms(3) by (simp add: last_map)
  moreover have "decoded (last rows) = Some (the (decoded (last rows)))"
    using assms(3) by (intro dec) simp
  ultimately show "cached (snd (ListUsers Query False s)) (col_id r) = decoded (last rows)"
    using after by (simp add: cached_def)
qed

theorem ListUsers_backfill_shared_witness:
  "cached (snd (ListUsers (answering (Inr [alice_row, bob_row])) False (NewUserService ()))) 1
     = decoded bob_row
   \<and> cached (snd (ListUsers (answering (Inr [alice_row, bob_row])) False (NewUserService ()))) 2
     = decoded bob_row"
proof -
  have ids: "col_id alice_row = 1" "col_id bob_row = 2"
    by (simp_all add: alice_row_def bob_row_def)
  have "answering (Inr [alice_row, bob_row]) ListUsers_query (db (NewUserService ()))
      = (Inr [alice_row, bob_row], ())"
    by (simp add: answering_def)
  moreover have "\<not> list_ex (\<lambda>r. decoded r = None) [alice_row, bob_row]"
    by (simp add: decoded_examples)
  ultimately show ?thesis
    using ListUsers_backfill_shared
      [of "answering (Inr [alice_row, bob_row])" "NewUserService ()" "[alice_row, bob_row]" "()"]
    by (simp add: ids)
qed


subsection \<open>Searching for a term without pattern characters\<close>

lemma like_match_any:
  "like_match (CHR ''%'' # ps) s = (\<exists>a b. s = a @ b \<and> like_match ps b)"
proof (induction s)
  case Nil
  show ?case by simp
next
  case (Cons c cs)
  have "like_match (CHR ''%'' # ps) (c # cs)
      = (like_match ps (c # cs) \<or> (\<exists>a b. cs = a @ b \<and> like_match ps b))"
    using Cons.IH by simp
  also have "\<dots> = (\<exists>a b. c # cs = a @ b \<and> like_match ps b)"
  proof
    assume "like_match ps (c # cs) \<or> (\<exists>a b. cs = a @ b \<and> like_match ps b)"
    then show "\<exists>a b. c # cs = a @ b \<and> like_match ps b"
    proof
      assume "like_match ps (c # cs)"
      then have "c # cs = [] @ (c # cs) \<and> like_match ps (c # cs)" by simp
      then show ?thesis by blast
    next
      assume "\<exists>a b. cs = a @ b \<and> like_match ps b"
      then obtain a b where "cs = a @ b" "like_match ps b" by blast
      then have "c # cs = (c # a) @ b \<and> like_match ps b" by simp
      then show ?thesis by blast
    qed
  next
    assume "\<exists>a b. c # cs = a @ b \<and> like_match ps b"
    then obtain a b where ab: "c # cs = a @ b" "like_match ps b" by blast
    show "like_match ps (c # cs) \<or> (\<exists>a b. cs = a @ b \<and> like_match ps b)"
    proof (cases a)
      case Nil
      then show ?thesis using ab by simp
    next
      case (Cons x xs)
      then have "cs = xs @ b" using ab(1) by simp
      then show ?thesis using ab(2) by blast
    qed
  qed
  finally show ?case .
qed

lemma like_match_plain:
  "plain_term t \<Longrightarrow> like_match (t @ ps) s = (\<exists>b. s = t @ b \<and> like_match ps b)"
proof (induction t arbitrary: s)
  case Nil
  show ?case by simp
next
  case (Cons c t)
  then have c: "c \<noteq> CHR ''%''" "c \<noteq> CHR ''_''" "c \<noteq> CHR 0x5C" and t: "plain_term t"
    by (simp_all add: plain_term_def)
  show ?case
  proof (cases s)
    case Nil
    then show ?thesis using c by simp
  next
    case (Cons x xs)
    then show ?thesis using c Cons.IH [OF t, of xs] by auto
  qed
qed

lemma like_match_contains:
  "plain_term t \<Longrightarrow> like_match (''%'' @ t @ ''%'') s = Contains s t"
proof -
  assume t: "plain_term t"
  have all: "like_match ''%'' b" for b
    using like_match_any [of "[]" b] by simp
  have "like_match (''%'' @ t @ ''%'') s = (\<exists>a b. s = a @ b \<and> like_match (t @ ''%'') b)"
    using like_match_any [of "t @ ''%''" s] by simp
  also have "\<dots> = (\<exists>a b. s = a @ b \<and> (\<exists>c. b = t @ c))"
    by (simp add: like_match_plain [OF t] all)
  also have "\<dots> = Contains s t"
    by (auto simp: Contains_iff)
  finally show ?thesis .
qed

lemma split_quotes_append:
  "CHR 0x27 \<notin> set a \<Longrightarrow> split_quotes cur (a @ rest) = split_quotes (cur @ a) rest"
  by (induction a arbitrary: cur) auto

lemma SearchUsers_query_pieces:
  assumes "CHR 0x27 \<notin> set t"
  shows "split_quotes [] (SearchUsers_query t) =
      [[CHR 0x0A, CHR 0x09, CHR 0x09] @ ''SELECT id, username, email, bio, created ''
         @ [CHR 0x0A, CHR 0x09, CHR 0x09] @ ''FROM users ''
         @ [CHR 0x0A, CHR 0x09, CHR 0x09] @ ''WHERE LOWER(username) LIKE '',
       ''%'' @ t @ ''%'', '' '' @ [CHR 0x0A, CHR 0x09, CHR 0x09] @ ''   OR LOWER(email) LIKE '',
       ''%'' @ t @ ''%'', '' '' @ [CHR 0x0A, CHR 0x09, CHR 0x09] @ ''   OR LOWER(bio) LIKE '',
       ''%'' @ t @ ''%'', []]"
  using assms by (simp add: SearchUsers_query_def split_quotes_append)

lemma search_rows_plain:
  "plain_term t \<Longrightarrow>
     search_rows (''%'' @ t @ ''%'') (''%'' @ t @ ''%'') (''%'' @ t @ ''%'') table = rows_containing t table"
  by (simp only: search_rows_def rows_containing_def like_match_contains)

lemma postgres_search_plain:
  assumes "plain_term t"
  shows "postgres_search (SearchUsers_query t) table = (Inr (rows_containing t table), table)"
proof -
  have quote: "CHR 0x27 \<notin> set t"
    using assms by (auto simp: plain_term_def list_all_iff)
  have empty: "CHR 0x27 \<notin> set ([]::string)" by simp
  show ?thesis
    unfolding postgres_search_def SearchUsers_query_pieces [OF quote]
      SearchUsers_query_pieces [OF empty]
    using search_rows_plain [OF assms, of table] by simp
qed

text \<open>
  Against the model of PostgreSQL and for a term that lower-cases to one without
  \<^verbatim>\<open>%\<close>, \<^verbatim>\<open>_\<close>, backslash and quote, \<^verbatim>\<open>SearchUsers\<close> answers the processed copies of
  the rows in which the lower-cased term occurs in the lower-cased username, email or
  bio and which decode, in the order of the table.
\<close>

theorem SearchUsers_plain_term:
  assumes "q \<noteq> []"
    and "plain_term (ToLower unicode_lower q)"
  shows "fst (SearchUsers postgres_search unicode_lower q s)
           = JSON 200 (ManyUsers
               (List.map_filter decoded (rows_containing (ToLower unicode_lower q) (db s))))"
  using assms by (simp add: SearchUsers_def postgres_search_plain SearchUsers_rows_eq)

theorem SearchUsers_plain_term_witness:
  "fst (SearchUsers postgres_search id ''User'' (NewUserService [alice_row, bob_row]))
     = JSON 200 (ManyUsers [\<lparr>ID = 2, Username = ''bob'', Email = ''bob@x.com'',
                              Bio = ''user profile'', Created = ''2024-05-02T10:00:00Z''\<rparr>])"
proof -
  have lower: "ToLower id ''User'' = ''user''"
    by (simp add: ToLower_def ascii_lower_def char_defs)
  have plain: "plain_term (ToLower id ''User'')"
    by (simp add: lower plain_term_def)
  have rows: "rows_containing ''user'' [alice_row, bob_row] = [bob_row]"
    by (simp add: rows_containing_def LOWER_def ascii_lower_def alice_row_def bob_row_def char_defs)
  show ?thesis
    using SearchUsers_plain_term [of "''User''" id "NewUserService [alice_row, bob_row]", OF _ plain]
    by (simp add: lower rows NewUserService_def List.map_filter_simps decoded_examples)
qed


subsection \<open>Runs of GetUser over several ids\<close>

lemma GetUser_wf:
  "wf_cache s \<Longrightarrow> wf_cache (snd (GetUser QueryRow vars_id s))"
  by (auto simp: GetUser_def Let_def wf_cache_put
        split: option.splits sum.splits sql_error.splits prod.splits)

lemma GetUser_db: "db (snd (GetUser QueryRow vars_id s)) = db s"
  by (auto simp: GetUser_def Let_def cache_put_def
        split: option.splits sum.splits sql_error.splits prod.splits)

lemma GetUser_cached_cases:
  "snd (GetUser QueryRow vars_id s) = s
   \<or> (\<exists>i row user created.
         Atoi vars_id = Some i \<and> cache s i = None \<and> QueryRow (GetUser_query i) (db s) = Inr row
         \<and> Scan row = Inr (user, created)
         \<and> snd (GetUser QueryRow vars_id s) = cache_put i (user\<lparr>Created := RFC3339 created\<rparr>) s)"
  by (auto simp: GetUser_def Let_def split: option.splits sum.splits sql_error.splits prod.splits)

lemma GetUser_response_stable:
  assumes "wf_cache s"
  shows "fst (GetUser QueryRow v (snd (GetUser QueryRow vars_id s))) = fst (GetUser QueryRow v s)"
proof -
  consider "snd (GetUser QueryRow vars_id s) = s"
    | i row user created where "Atoi vars_id = Some i" "cache s i = None"
        "QueryRow (GetUser_query i) (db s) = Inr row" "Scan row = Inr (user, created)"
        "snd (GetUser QueryRow vars_id s) = cache_put i (user\<lparr>Created := RFC3339 created\<rparr>) s"
    using GetUser_cached_cases [of QueryRow vars_id s] by blast
  then show ?thesis
  proof cases
    case 1
    then show ?thesis by simp
  next
    case 2
    let ?u = "user\<lparr>Created := RFC3339 created\<rparr>"
    show ?thesis
    proof (cases "Atoi v")
      case None
      then show ?thesis by (simp add: GetUser_def)
    next
      case (Some j)
      show ?thesis
      proof (cases "j = i")
        case True
        then show ?thesis
          using 2 Some by (simp add: GetUser_def cache_put_def Let_def)
      next
        case False
        show ?thesis
        proof (cases "cache s j")
          case None
          then show ?thesis
            using 2(5) Some False by (simp add: GetUser_def cache_put_def Let_def
                split: option.splits sum.splits sql_error.splits prod.splits)
        next
          case (Some a)
          then have "a \<noteq> free s" using assms by (auto simp: wf_cache_def)
          then show ?thesis
            using 2(5) \<open>Atoi v = Some j\<close> False Some by (simp add: GetUser_def cache_put_def)
        qed
      qed
    qed
  qed
qed

text \<open>
  In a run of \<^verbatim>\<open>GetUser\<close> calls over any list of path ids, from a state whose cache
  addresses have all been handed out, every call answers what a single call for its
  id answers in the starting state: calls for the same id answer the same, whichever
  other ids are fetched in between.
\<close>

theorem GetUser_run_responses:
  "wf_cache s \<Longrightarrow> fst (GetUser_run QueryRow vs s) = map (\<lambda>v. fst (GetUser QueryRow v s)) vs"
proof (induction vs arbitrary: s)
  case Nil
  show ?case by simp
next
  case (Cons v vs)
  let ?s1 = "snd (GetUser QueryRow v s)"
  have "fst (GetUser_run QueryRow vs ?s1) = map (\<lambda>w. fst (GetUser QueryRow w ?s1)) vs"
    using Cons.prems by (intro Cons.IH GetUser_wf)
  also have "\<dots> = map (\<lambda>w. fst (GetUser QueryRow w s)) vs"
    using Cons.prems by (simp add: GetUser_response_stable)
  finally have rest: "fst (GetUser_run QueryRow vs ?s1) = map (\<lambda>w. fst (GetUser QueryRow w s)) vs" .
  obtain r s1 where first: "GetUser QueryRow v s = (r, s1)"
    by (cases "GetUser QueryRow v s")
  then show ?case
    using rest by (cases "GetUser_run QueryRow vs s1") simp
qed

theorem GetUser_run_responses_witness:
  "fst (GetUser_run postgres_select_by_id [''1'', ''2'', ''01'', ''7'', ''1'']
         (NewUserService [alice_row, bob_row]))
     = [JSON 200 (OneUser (the (decoded alice_row))), JSON 200 (OneUser (the (decoded bob_row))),
        JSON 200 (OneUser (the (decoded alice_row))), HttpError 404 ''User not found'',
        JSON 200 (OneUser (the (decoded alice_row)))]"
proof -
  have atoi: "Atoi ''1'' = Some 1" "Atoi ''2'' = Some 2" "Atoi ''01'' = Some 1" "Atoi ''7'' = Some 7"
    by (simp_all add: Atoi_def char_defs)
  have itoa: "Itoa 1 = ''1''" "Itoa 2 = ''2''" "Itoa 7 = ''7''"
    by (simp_all add: Itoa_def digit_char_def)
  have sel: "postgres_select_by_id (GetUser_query 1) [alice_row, bob_row] = Inr alice_row"
    "postgres_select_by_id (GetUser_query 2) [alice_row, bob_row] = Inr bob_row"
    "postgres_select_by_id (GetUser_query 7) [alice_row, bob_row] = Inl ErrNoRows"
    by (simp_all add: postgres_select_by_id_def GetUser_query_def itoa atoi alice_row_def bob_row_def)
  have single: "fst (GetUser postgres_select_by_id ''1'' (NewUserService [alice_row, bob_row]))
        = JSON 200 (OneUser (the (decoded alice_row)))"
      "fst (GetUser postgres_select_by_id ''01'' (NewUserService [alice_row, bob_row]))
        = JSON 200 (OneUser (the (decoded alice_row)))"
      "fst (GetUser postgres_select_by_id ''2'' (NewUserService [alice_row, bob_row]))
        = JSON 200 (OneUser (the (decoded bob_row)))"
      "fst (GetUser postgres_select_by_id ''7'' (NewUserService [alice_row, bob_row]))
        = HttpError 404 ''User not found''"
    using decoded_examples(1,2)
    by (auto simp: GetUser_def atoi sel NewUserService_def decoded_def Let_def
          split: sum.splits prod.splits)
  show ?thesis
    using GetUser_run_responses [OF wf_cache_New, of postgres_select_by_id
        "[''1'', ''2'', ''01'', ''7'', ''1'']" "[alice_row, bob_row]"]
    by (simp only: single list.map)
qed

text \<open>
  After a successful \<^verbatim>\<open>UpdateUser\<close> the next \<^verbatim>\<open>GetUser\<close> for the id is answered from
  the store, not from what the cache held before the update.
\<close>

theorem GetUser_after_UpdateUser:
  assumes "Atoi vars_id = Some i"
    and "validateUser user"
    and "Exec (UpdateUser_query user i) (db s) = (Inr n, d)"
    and "0 < n"
    and "QueryRow (GetUser_query i) d = Inr row"
  shows "fst (GetUser QueryRow vars_id (snd (UpdateUser Exec vars_id (Some user) s)))
           = (case decoded row of None \<Rightarrow> HttpError 500 ''Database error''
              | Some u \<Rightarrow> JSON 200 (OneUser u))"
  using assms
  by (auto simp: UpdateUser_def GetUser_def decoded_def Let_def split: sum.splits prod.splits)

theorem GetUser_after_UpdateUser_witness:
  "fst (GetUser (\<lambda>text d. Inr bob_row) ''1''
         (snd (UpdateUser (answering (Inr 1)) ''1'' (Some valid_user)
                 (snd (CreateUser (answering (Inr 1)) ''2026-01-01T00:00:00Z'' (Some spam_user)
                         (NewUserService ()))))))
     = JSON 200 (OneUser (the (decoded bob_row)))"
  using valid_user_ok decoded_examples(2)
    GetUser_after_UpdateUser [OF Atoi_1, of valid_user "answering (Inr 1)"
      "snd (CreateUser (answering (Inr 1)) ''2026-01-01T00:00:00Z'' (Some spam_user) (NewUserService ()))"
      1 "()" "\<lambda>text d. Inr bob_row" bob_row]
  by (simp add: answering_def)


subsection \<open>What CreateUser and GetUser put in the cache\<close>

text \<open>
  A successful \<^verbatim>\<open>CreateUser\<close> sends one statement, answers 201 with the submitted
  record under the id the store returned, and caches that record as submitted: the bio
  is not processed and no second statement fetches the row.
\<close>

theorem CreateUser_success:
  assumes "validateUser user"
    and "Insert (CreateUser_query user now) (db s) = (Inr i, d)"
  shows "fst (CreateUser Insert now (Some user) s) = JSON 201 (OneUser (user\<lparr>ID := i\<rparr>))
       \<and> cached (snd (CreateUser Insert now (Some user) s)) i = Some (user\<lparr>ID := i\<rparr>)
       \<and> db (snd (CreateUser Insert now (Some user) s)) = d
       \<and> globalUsers (snd (CreateUser Insert now (Some user) s)) = globalUsers s @ [user\<lparr>ID := i\<rparr>]"
  using assms by (simp add: CreateUser_def cache_put_def cached_def Let_def)

theorem CreateUser_success_witness:
  "CreateUser (recording (Inr 7)) ''2026-01-01T00:00:00Z''
       (Some (valid_user\<lparr>Bio := ''a  b''\<rparr>)) (NewUserService [])
     = (JSON 201 (OneUser \<lparr>ID = 7, Username = ''validUser1'', Email = ''user@example.com'',
                            Bio = ''a  b'', Created = []\<rparr>),
        snd (CreateUser (recording (Inr 7)) ''2026-01-01T00:00:00Z''
               (Some (valid_user\<lparr>Bio := ''a  b''\<rparr>)) (NewUserService [])))
   \<and> map_option Bio (cached (snd (CreateUser (recording (Inr 7)) ''2026-01-01T00:00:00Z''
               (Some (valid_user\<lparr>Bio := ''a  b''\<rparr>)) (NewUserService []))) 7) = Some ''a  b''
   \<and> length (db (snd (CreateUser (recording (Inr 7)) ''2026-01-01T00:00:00Z''
               (Some (valid_user\<lparr>Bio := ''a  b''\<rparr>)) (NewUserService [])))) = 1"
proof -
  have ok: "validateUser (valid_user\<lparr>Bio := ''a  b''\<rparr>)"
    using valid_user_ok by (simp add: validateUser_iff valid_user_def)
  have sent: "recording (Inr (7::int)) (CreateUser_query (valid_user\<lparr>Bio := ''a  b''\<rparr>) ''2026-01-01T00:00:00Z'')
        (db (NewUserService []))
      = (Inr 7, [CreateUser_query (valid_user\<lparr>Bio := ''a  b''\<rparr>) ''2026-01-01T00:00:00Z''])"
    by (simp add: recording_def NewUserService_def)
  show ?thesis
    using CreateUser_success
      [of "valid_user\<lparr>Bio := ''a  b''\<rparr>" "recording (Inr 7)" "''2026-01-01T00:00:00Z''"
        "NewUserService []" 7, OF ok sent]
    by (cases "CreateUser (recording (Inr 7)) ''2026-01-01T00:00:00Z''
                 (Some (valid_user\<lparr>Bio := ''a  b''\<rparr>)) (NewUserService [])")
       (simp add: valid_user_def)
qed

text \<open>
  On a miss \<^verbatim>\<open>GetUser\<close> caches the record as the store holds it and answers its
  processed copy.
\<close>

theorem GetUser_miss_caches_raw:
  assumes "Atoi vars_id = Some i"
    and "cache s i = None"
    and "QueryRow (GetUser_query i) (db s) = Inr row"
    and "col_bio row = Some b"
    and "col_created row = Some t"
  shows "map_option Bio (cached (snd (GetUser QueryRow vars_id s)) i) = Some b
       \<and> fst (GetUser QueryRow vars_id s)
           = JSON 200 (OneUser \<lparr>ID = col_id row, Username = col_username row,
                Email = col_email row, Bio = Join (Fields b) '' '', Created = RFC3339 t\<rparr>)"
  using assms
  by (simp add: GetUser_def Scan_def cache_put_def cached_def processUserData_def Let_def)

theorem GetUser_miss_caches_raw_witness:
  "map_option Bio (cached (snd (GetUser (\<lambda>text d. Inr alice_row) ''1'' (NewUserService ()))) 1)
     = Some ''likes  long   walks''
   \<and> fst (GetUser (\<lambda>text d. Inr alice_row) ''1'' (NewUserService ()))
     = JSON 200 (OneUser \<lparr>ID = 1, Username = ''alice'', Email = ''alice@x.com'',
                           Bio = ''likes long walks'', Created = ''2024-05-01T10:00:00Z''\<rparr>)"
proof -
  have norm: "Join (Fields ''likes  long   walks'') '' '' = ''likes long walks''"
    by (simp add: Fields_def char_defs)
  have miss: "cache (NewUserService ()) 1 = None"
    by (simp add: NewUserService_def)
  show ?thesis
    using GetUser_miss_caches_raw [OF Atoi_1 miss, of "\<lambda>text d. Inr alice_row" alice_row
        "''likes  long   walks''" "Time ''2024-05-01T10:00:00Z''"]
    by (simp add: alice_row_def norm)
qed


subsection \<open>The two patterns, spelled out\<close>

text \<open>
  The username pattern accepts exactly the texts of 3 to 20 bytes that are all ASCII
  letters, digits or underscores.
\<close>

theorem username_pattern:
  "MatchString usernameRegex s
     = (3 \<le> length s \<and> length s \<le> 20
        \<and> list_all (\<lambda>c. is_lower c \<or> is_upper c \<or> is_digit c \<or> c = CHR ''_'') s)"
proof -
  have "word_class = (\<lambda>c. is_lower c \<or> is_upper c \<or> is_digit c \<or> c = CHR ''_'')"
    by (auto simp: word_class_def is_letter_def fun_eq_iff)
  then show ?thesis
    by (simp add: usernameRegex_iff)
qed

text \<open>
  The email pattern accepts exactly the texts \<^verbatim>\<open>local@domain.tld\<close> with a non-empty
  local part of letters, digits and \<^verbatim>\<open>._%+-\<close>, a non-empty domain of letters, digits,
  dots and hyphens, and a last label of at least two letters.
\<close>

theorem email_pattern:
  "MatchString emailRegex s
     = (\<exists>l d t. s = l @ ''@'' @ d @ ''.'' @ t \<and> l \<noteq> [] \<and> list_all local_class l \<and> d \<noteq> []
          \<and> list_all domain_class d \<and> 2 \<le> length t \<and> list_all is_letter t)"
  by (rule emailRegex_iff)


subsection \<open>Processing a record twice\<close>

lemma space_width_le: "space_width s \<le> length s"
  by (induction s rule: space_width.induct) auto

lemma space_width_boundary: "0 < space_width s \<Longrightarrow> boundary s"
  by (induction s rule: space_width.induct)
     (auto simp: boundary_def ascii_space_def split: if_splits)

lemma space_width_one:
  assumes "boundary z"
  shows "space_width (a # z) = (if ascii_space a then 1 else 0)"
proof (cases z)
  case Nil
  then show ?thesis by simp
next
  case (Cons b z1)
  then have b: "byte b \<noteq> 0x85" "byte b \<noteq> 0xA0" "byte b \<noteq> 0x9A" "byte b \<noteq> 0x80" "byte b \<noteq> 0x81"
    using assms by (auto simp: boundary_def)
  show ?thesis
  proof (cases z1)
    case Nil
    then show ?thesis using b Cons by simp
  next
    case (Cons c z2)
    then show ?thesis using b \<open>z = b # z1\<close> by simp
  qed
qed

lemma space_width_two:
  assumes "boundary z"
  shows "space_width (a # b # z)
          = (if ascii_space a then 1
             else if byte a = 0xC2 \<and> (byte b = 0x85 \<or> byte b = 0xA0) then 2 else 0)"
proof (cases z)
  case Nil
  then show ?thesis by simp
next
  case (Cons c z1)
  then have c: "\<not> (0x80 \<le> byte c \<and> byte c \<le> 0x8A)" "byte c \<noteq> 0xA8" "byte c \<noteq> 0xA9"
      "byte c \<noteq> 0xAF" "byte c \<noteq> 0x9F" "byte c \<noteq> 0x80"
    using assms by (auto simp: boundary_def)
  show ?thesis using c Cons by auto
qed

lemma space_width_context:
  assumes "v \<noteq> []" and "boundary x" and "boundary y"
  shows "space_width (v @ x) = space_width (v @ y)"
proof -
  obtain a v1 where v: "v = a # v1" using assms(1) by (cases v) auto
  show ?thesis
  proof (cases v1)
    case Nil
    then show ?thesis using v assms(2,3) by (simp add: space_width_one)
  next
    case (Cons b v2)
    note v1 = Cons
    show ?thesis
    proof (cases v2)
      case Nil
      then show ?thesis using v v1 assms(2,3) by (simp add: space_width_two)
    next
      case (Cons c v3)
      then show ?thesis using v v1 by simp
    qed
  qed
qed

lemma no_space_in_context:
  "boundary x \<Longrightarrow> boundary y \<Longrightarrow> no_space_in f x = no_space_in f y"
proof (induction f)
  case Nil
  show ?case by simp
next
  case (Cons c cs)
  have "space_width ((c # cs) @ x) = space_width ((c # cs) @ y)"
    using Cons.prems by (intro space_width_context) simp_all
  then show ?case using Cons by simp
qed

lemma no_space_in_snoc:
  "no_space_in cur (c # cs) \<Longrightarrow> space_width (c # cs) = 0 \<Longrightarrow> no_space_in (cur @ [c]) cs"
  by (induction cur) simp_all

lemma Fields_scan_field:
  "no_space_in f x \<Longrightarrow> Fields_scan 0 cur (f @ x) = Fields_scan 0 (cur @ f) x"
  by (induction f arbitrary: cur) simp_all

lemma Fields_scan_fields_ok:
  "(k = 0 \<longrightarrow> no_space_in cur s) \<Longrightarrow> (0 < k \<longrightarrow> cur = []) \<Longrightarrow>
     list_all (\<lambda>f. f \<noteq> [] \<and> no_space_in f []) (Fields_scan k cur s)"
proof (induction k cur s rule: Fields_scan.induct)
  case (1 skip cur)
  then show ?case by (cases skip) auto
next
  case (2 k cur c cs)
  then show ?case by simp
next
  case (3 cur c cs)
  have cur: "no_space_in cur (c # cs)" using 3(4) by simp
  show ?case
  proof (cases "space_width (c # cs)")
    case 0
    then have "no_space_in (cur @ [c]) cs" using cur by (intro no_space_in_snoc)
    then show ?thesis using 0 3(1) by simp
  next
    case (Suc k)
    then have "boundary (c # cs)" by (intro space_width_boundary) simp
    moreover have "boundary []" by (simp add: boundary_def)
    ultimately have ok: "no_space_in cur []"
      using cur no_space_in_context [of "c # cs" "[]" cur] by simp
    show ?thesis
    proof (cases "cur = []")
      case True
      then show ?thesis using Suc 3(2) by simp
    next
      case False
      then show ?thesis using Suc 3(3) ok by simp
    qed
  qed
qed

lemma space_width_space: "space_width (CHR '' '' # r) = Suc 0"
proof (cases r)
  case Nil
  then show ?thesis by (simp add: ascii_space_def byte_def)
next
  case (Cons b r1)
  then show ?thesis by (cases r1) (simp_all add: ascii_space_def byte_def)
qed

lemma Fields_Join:
  "list_all (\<lambda>f. f \<noteq> [] \<and> no_space_in f []) fs \<Longrightarrow> Fields_scan 0 [] (Join fs '' '') = fs"
proof (induction fs "'' ''" rule: Join.induct)
  case 1
  show ?case by simp
next
  case (2 e)
  then have "Fields_scan 0 [] (e @ []) = Fields_scan 0 ([] @ e) []"
    by (intro Fields_scan_field) simp
  then show ?case using 2 by simp
next
  case (3 e f es)
  let ?rest = "'' '' @ Join (f # es) '' ''"
  have "boundary []" "boundary ?rest" by (simp_all add: boundary_def byte_def)
  then have "no_space_in e ?rest"
    using 3(2) no_space_in_context [of "[]" ?rest e] by simp
  then have "Fields_scan 0 [] (e @ ?rest) = Fields_scan 0 ([] @ e) ?rest"
    by (rule Fields_scan_field)
  also have "\<dots> = e # Fields_scan 0 [] (Join (f # es) '' '')"
    using 3(2) by (simp add: space_width_space)
  also have "Fields_scan 0 [] (Join (f # es) '' '') = f # es"
    using 3 by simp
  finally show ?case by simp
qed

text \<open>
  Processing is idempotent: a record whose bio has been processed is left as it is by
  \<^verbatim>\<open>processUserData\<close>, for every bio, whatever its bytes.
\<close>

theorem processUserData_idempotent:
  "processUserData (processUserData user) = processUserData user"
proof -
  have "list_all (\<lambda>f. f \<noteq> [] \<and> no_space_in f []) (Fields (Bio user))"
    unfolding Fields_def by (rule Fields_scan_fields_ok) simp_all
  then have "Fields (Join (Fields (Bio user)) '' '') = Fields (Bio user)"
    unfolding Fields_def by (rule Fields_Join)
  then show ?thesis by (simp add: processUserData_def)
qed


lemma GetUser_hit:
  "Atoi vars_id = Some i \<Longrightarrow> cached s i = Some u \<Longrightarrow>
     GetUser QueryRow vars_id s = (JSON 200 (OneUser (processUserData u)), s)"
  by (auto simp: GetUser_def cached_def split: option.splits)

lemma decoded_processed: "decoded r = Some u \<Longrightarrow> processUserData u = u"
  by (auto simp: decoded_def processUserData_idempotent split: sum.splits prod.splits)

text \<open>
  With a loop variable per iteration, the processed copies that \<^verbatim>\<open>ListUsers\<close> leaves in
  the cache do not show in the responses of \<^verbatim>\<open>GetUser\<close>: for the id of a listed row it
  answers the processed copy of that row, as it does when it fetches the row itself.
\<close>

theorem GetUser_after_ListUsers:
  assumes "Query ListUsers_query (db s) = (Inr rows, d)"
    and "\<not> list_ex (\<lambda>r. decoded r = None) rows"
    and "distinct (map col_id rows)"
    and "wf_cache s"
    and "r \<in> set rows"
    and "Atoi vars_id = Some (col_id r)"
  shows "fst (GetUser QueryRow vars_id (snd (ListUsers Query True s)))
           = JSON 200 (OneUser (the (decoded r)))"
proof -
  obtain u where u: "decoded r = Some u"
    using assms(2,5) by (auto simp: list_ex_iff)
  have "cached (snd (ListUsers Query True s)) (col_id r) = Some u"
    using ListUsers_backfill_per_iteration [of Query s rows d, OF assms(1-4)] assms(5) u by simp
  then have "fst (GetUser QueryRow vars_id (snd (ListUsers Query True s)))
      = JSON 200 (OneUser (processUserData u))"
    using assms(6) by (simp add: GetUser_hit)
  then show ?thesis using u by (simp add: decoded_processed)
qed

theorem GetUser_after_ListUsers_witness:
  "fst (GetUser (\<lambda>text d. Inl ErrOther) ''1''
         (snd (ListUsers (answering (Inr [alice_row, bob_row])) True (NewUserService ()))))
     = JSON 200 (OneUser \<lparr>ID = 1, Username = ''alice'', Email = ''alice@x.com'',
                           Bio = ''likes long walks'', Created = ''2024-05-01T10:00:00Z''\<rparr>)"
proof -
  have ids: "col_id alice_row = 1" "col_id bob_row = 2"
    by (simp_all add: alice_row_def bob_row_def)
  have answer: "answering (Inr [alice_row, bob_row]) ListUsers_query (db (NewUserService ()))
      = (Inr [alice_row, bob_row], ())"
    by (simp add: answering_def)
  have decode: "\<not> list_ex (\<lambda>r. decoded r = None) [alice_row, bob_row]"
    by (simp add: decoded_examples)
  have keys: "distinct (map col_id [alice_row, bob_row])"
    by (simp add: ids)
  have listed: "alice_row \<in> set [alice_row, bob_row]" by simp
  have path: "Atoi ''1'' = Some (col_id alice_row)" by (simp add: ids Atoi_1)
  show ?thesis
    using GetUser_after_ListUsers
      [of "answering (Inr [alice_row, bob_row])" "NewUserService ()" "[alice_row, bob_row]" "()"
        alice_row "''1''" "\<lambda>text d. Inl ErrOther",
        OF answer decode keys wf_cache_New listed path]
    by (simp add: decoded_examples)
qed


subsection \<open>UpdateUser on an id the store does not have\<close>

lemma apostrophe_user_ok: "validateUser apostrophe_user"
  by (simp add: validateUser_iff valid_user_def apostrophe_user_def valid_username valid_email)

lemma db_New: "db (NewUserService d) = d"
  by (simp add: NewUserService_def)

lemma Atoi_7: "Atoi ''7'' = Some 7"
  by (simp add: Atoi_def char_defs)

lemma Atoi_2: "Atoi ''2'' = Some 2"
  by (simp add: Atoi_def char_defs)

text \<open>
  C8 fails on the code. The table has no row with id 999999. For the valid candidate
  with the bio \<^verbatim>\<open>Test bio content\<close> the store finds no row and \<^verbatim>\<open>UpdateUser\<close> answers
  404; for the valid candidate with the bio \<^verbatim>\<open>it's\<close> the statement text has seven
  quotes, the store answers an error and \<^verbatim>\<open>UpdateUser\<close> answers 500
  \<^verbatim>\<open>Database error\<close>. The cache is unchanged in both cases.
\<close>

theorem UpdateUser_absent_id_quote_in_bio:
  "validateUser apostrophe_user
   \<and> \<not> list_ex (\<lambda>r. col_id r = 999999) [bob_row, alice_row]
   \<and> UpdateUser_query apostrophe_user 999999
       = ''UPDATE users SET username='validUser1', email='user@example.com', bio='it's' WHERE id=999999''
   \<and> length (filter (\<lambda>c. c = CHR 0x27) (UpdateUser_query apostrophe_user 999999)) = 7
   \<and> UpdateUser postgres_update ''999999'' (Some apostrophe_user) (NewUserService [bob_row, alice_row])
       = (HttpError 500 ''Database error'', NewUserService [bob_row, alice_row])
   \<and> UpdateUser postgres_update ''999999'' (Some valid_user) (NewUserService [bob_row, alice_row])
       = (HttpError 404 ''User not found'', NewUserService [bob_row, alice_row])"
proof -
  have itoa: "Itoa 999999 = ''999999''"
    by (simp add: Itoa_def digit_char_def)
  have sent: "UpdateUser_query apostrophe_user 999999
      = ''UPDATE users SET username='validUser1', email='user@example.com', bio='it's' WHERE id=999999''"
    by (simp add: UpdateUser_query_def apostrophe_user_def valid_user_def itoa)
  have plain: "UpdateUser_query valid_user 999999
      = ''UPDATE users SET username='validUser1', email='user@example.com', bio='Test bio content' WHERE id=999999''"
    by (simp add: UpdateUser_query_def valid_user_def itoa)
  have shape: "split_quotes [] (UpdateUser_query zero_User 999999)
      = [''UPDATE users SET username='', [], '', email='', [], '', bio='', [], '' WHERE id=999999'']"
    by (simp add: UpdateUser_query_def zero_User_def itoa)
  have absent: "\<not> list_ex (\<lambda>r. col_id r = 999999) [bob_row, alice_row]"
    by (simp add: bob_row_def alice_row_def)
  have error: "postgres_update (UpdateUser_query apostrophe_user 999999) [bob_row, alice_row]
      = (Inl ErrOther, [bob_row, alice_row])"
    unfolding sent by (simp add: postgres_update_def)
  have none: "postgres_update (UpdateUser_query valid_user 999999) [bob_row, alice_row]
      = (Inr 0, [bob_row, alice_row])"
    unfolding plain using absent
    by (simp add: postgres_update_def Atoi_999999 shape update_rows_def bob_row_def alice_row_def)
  have state: "(NewUserService [bob_row, alice_row])\<lparr>db := [bob_row, alice_row]\<rparr>
      = NewUserService [bob_row, alice_row]"
    by (simp add: NewUserService_def)
  have quotes: "length (filter (\<lambda>c. c = CHR 0x27) (UpdateUser_query apostrophe_user 999999)) = 7"
    unfolding sent by simp
  have r500: "UpdateUser postgres_update ''999999'' (Some apostrophe_user)
        (NewUserService [bob_row, alice_row])
      = (HttpError 500 ''Database error'', NewUserService [bob_row, alice_row])"
    using apostrophe_user_ok by (simp add: UpdateUser_def Atoi_999999 db_New error state)
  have r404: "UpdateUser postgres_update ''999999'' (Some valid_user)
        (NewUserService [bob_row, alice_row])
      = (HttpError 404 ''User not found'', NewUserService [bob_row, alice_row])"
    using valid_user_ok by (simp add: UpdateUser_def Atoi_999999 db_New none state)
  show ?thesis
    using apostrophe_user_ok absent sent quotes r500 r404 by (intro conjI)
qed


subsection \<open>GetUser before and after ListUsers\<close>

lemma created_state:
  "snd (CreateUser (inserting created_row) ''2026-01-01T00:00:00Z'' (Some valid_user)
          (NewUserService []))
     = \<lparr>db = [created_row], cache = [7 \<mapsto> 0],
         heap = (\<lambda>a. zero_User)(0 := valid_user\<lparr>ID := 7\<rparr>), free = 1,
         globalUsers = [valid_user\<lparr>ID := 7\<rparr>], requestCount = 0\<rparr>"
  using valid_user_ok
  by (simp add: CreateUser_def inserting_def NewUserService_def cache_put_def Let_def
        created_row_def)

text \<open>
  C9 fails on the code. With no update in between, \<^verbatim>\<open>GetUser\<close> for an id answers
  differently before and after a \<^verbatim>\<open>ListUsers\<close>. After \<^verbatim>\<open>CreateUser\<close> the cache holds
  the record without its creation time, and \<^verbatim>\<open>GetUser\<close> for id 7 answers an empty
  \<^verbatim>\<open>created\<close>; \<^verbatim>\<open>ListUsers\<close> puts the row of the store in the cache, and the next
  \<^verbatim>\<open>GetUser\<close> for id 7 answers the timestamp, under either reading of the second
  loop of \<^verbatim>\<open>ListUsers\<close>. With one loop variable for the whole loop, \<^verbatim>\<open>GetUser\<close> for
  id 2 answers bob's record before the \<^verbatim>\<open>ListUsers\<close> and alice's record, the last
  row of the list, after it.
\<close>

theorem GetUser_changes_after_ListUsers:
  "fst (GetUser postgres_select_by_id ''7''
          (snd (CreateUser (inserting created_row) ''2026-01-01T00:00:00Z'' (Some valid_user)
                  (NewUserService []))))
     = JSON 200 (OneUser \<lparr>ID = 7, Username = ''validUser1'', Email = ''user@example.com'',
                           Bio = ''Test bio content'', Created = []\<rparr>)
   \<and> fst (GetUser postgres_select_by_id ''7''
          (snd (ListUsers listing True
             (snd (GetUser postgres_select_by_id ''7''
                (snd (CreateUser (inserting created_row) ''2026-01-01T00:00:00Z'' (Some valid_user)
                        (NewUserService []))))))))
     = JSON 200 (OneUser \<lparr>ID = 7, Username = ''validUser1'', Email = ''user@example.com'',
                           Bio = ''Test bio content'', Created = ''2026-01-01T00:00:00Z''\<rparr>)
   \<and> fst (GetUser postgres_select_by_id ''7''
          (snd (ListUsers listing False
             (snd (GetUser postgres_select_by_id ''7''
                (snd (CreateUser (inserting created_row) ''2026-01-01T00:00:00Z'' (Some valid_user)
                        (NewUserService []))))))))
     = JSON 200 (OneUser \<lparr>ID = 7, Username = ''validUser1'', Email = ''user@example.com'',
                           Bio = ''Test bio content'', Created = ''2026-01-01T00:00:00Z''\<rparr>)
   \<and> fst (GetUser postgres_select_by_id ''2'' (NewUserService [bob_row, alice_row]))
     = JSON 200 (OneUser \<lparr>ID = 2, Username = ''bob'', Email = ''bob@x.com'',
                           Bio = ''user profile'', Created = ''2024-05-02T10:00:00Z''\<rparr>)
   \<and> fst (GetUser postgres_select_by_id ''2''
          (snd (ListUsers listing False
             (snd (GetUser postgres_select_by_id ''2'' (NewUserService [bob_row, alice_row]))))))
     = JSON 200 (OneUser \<lparr>ID = 1, Username = ''alice'', Email = ''alice@x.com'',
                           Bio = ''likes long walks'', Created = ''2024-05-01T10:00:00Z''\<rparr>)"
proof -
  let ?created = "snd (CreateUser (inserting created_row) ''2026-01-01T00:00:00Z''
      (Some valid_user) (NewUserService []))"
  let ?u = "\<lparr>ID = 7, Username = ''validUser1'', Email = ''user@example.com'',
      Bio = ''Test bio content'', Created = []\<rparr>"
  have norm: "Join (Fields ''Test bio content'') '' '' = ''Test bio content''"
    "Join (Fields ''user profile'') '' '' = ''user profile''"
    "Join (Fields ''likes  long   walks'') '' '' = ''likes long walks''"
    "Join (Fields ''likes long walks'') '' '' = ''likes long walks''"
    by (simp_all add: Fields_def char_defs)
  have get1: "GetUser postgres_select_by_id ''7'' ?created = (JSON 200 (OneUser ?u), ?created)"
    unfolding created_state
    by (simp add: GetUser_def Atoi_7 processUserData_def norm valid_user_def)
  have list7: "cached (snd (ListUsers listing per_iteration ?created)) 7
      = Some (?u\<lparr>Created := ''2026-01-01T00:00:00Z''\<rparr>)" for per_iteration
    unfolding created_state
    by (cases per_iteration)
       (simp_all add: ListUsers_def listing_def backfill_def cache_put_def cached_def Scan_def
          processUserData_def norm created_row_def Let_def)
  have get2: "fst (GetUser postgres_select_by_id ''7'' (snd (ListUsers listing per_iteration ?created)))
      = JSON 200 (OneUser (?u\<lparr>Created := ''2026-01-01T00:00:00Z''\<rparr>))" for per_iteration
    using GetUser_hit [OF Atoi_7 list7 [of per_iteration], of postgres_select_by_id]
    by (simp add: processUserData_def norm)
  let ?table = "NewUserService [bob_row, alice_row]"
  let ?bob = "\<lparr>ID = 2, Username = ''bob'', Email = ''bob@x.com'', Bio = ''user profile'',
      Created = ''2024-05-02T10:00:00Z''\<rparr>"
  have itoa: "Itoa 2 = ''2''"
    by (simp add: Itoa_def digit_char_def)
  have found: "postgres_select_by_id (GetUser_query 2) [bob_row, alice_row] = Inr bob_row"
    by (simp add: postgres_select_by_id_def GetUser_query_def itoa Atoi_2 bob_row_def)
  have scan_bob: "Scan bob_row = Inr (?bob\<lparr>Created := []\<rparr>, Time ''2024-05-02T10:00:00Z'')"
    by (simp add: Scan_def bob_row_def)
  have miss: "cache ?table 2 = None"
    by (simp add: NewUserService_def)
  have get3: "GetUser postgres_select_by_id ''2'' ?table
      = (JSON 200 (OneUser ?bob), cache_put 2 ?bob ?table)"
    by (simp add: GetUser_def Atoi_2 db_New miss found scan_bob processUserData_def norm Let_def)
  have list2: "cached (snd (ListUsers listing False (cache_put 2 ?bob ?table))) 2
      = Some \<lparr>ID = 1, Username = ''alice'', Email = ''alice@x.com'', Bio = ''likes long walks'',
               Created = ''2024-05-01T10:00:00Z''\<rparr>"
    by (simp add: ListUsers_def listing_def backfill_def cache_put_def cached_def Scan_def
          processUserData_def norm bob_row_def alice_row_def NewUserService_def Let_def)
  have get4: "fst (GetUser postgres_select_by_id ''2''
        (snd (ListUsers listing False (cache_put 2 ?bob ?table))))
      = JSON 200 (OneUser \<lparr>ID = 1, Username = ''alice'', Email = ''alice@x.com'',
           Bio = ''likes long walks'', Created = ''2024-05-01T10:00:00Z''\<rparr>)"
    using GetUser_hit [OF Atoi_2 list2, of postgres_select_by_id]
    by (simp add: processUserData_def norm)
  show ?thesis
    using get2 [of True] get2 [of False] get4
    by (simp add: get1 get3)
qed


subsection \<open>UpdateUser on an absent id, for values without a quote\<close>

lemma digit_char_byte: "d < 10 \<Longrightarrow> byte (digit_char d) = 48 + d"
proof -
  assume "d < 10"
  then have "d = 0 \<or> d = 1 \<or> d = 2 \<or> d = 3 \<or> d = 4 \<or> d = 5 \<or> d = 6 \<or> d = 7 \<or> d = 8 \<or> d = 9"
    by presburger
  then show ?thesis
    by (elim disjE) (simp_all add: digit_char_def byte_def)
qed

lemma nat_digits_digits: "list_all is_digit (nat_digits n) \<and> nat_digits n \<noteq> []"
proof (induction n rule: nat_digits.induct)
  case (1 n)
  show ?case
  proof (cases "n < 10")
    case True
    then have "nat_digits n = [digit_char n]"
      by (subst nat_digits.simps) (simp del: nat_digits.simps)
    then show ?thesis
      using True by (simp add: is_digit_def digit_char_byte del: nat_digits.simps)
  next
    case False
    then have unfold: "nat_digits n = nat_digits (n div 10) @ [digit_char (n mod 10)]"
      by (subst nat_digits.simps) (simp del: nat_digits.simps)
    have "n mod 10 < 10" by simp
    then have "is_digit (digit_char (n mod 10))"
      by (simp add: is_digit_def digit_char_byte)
    then show ?thesis
      using False 1 unfolding unfold by (simp del: nat_digits.simps)
  qed
qed

lemma digits_val_append: "digits_val acc (xs @ ys) = digits_val (digits_val acc xs) ys"
  by (induction xs arbitrary: acc) simp_all

lemma digits_val_nat_digits: "digits_val 0 (nat_digits n) = n"
proof (induction n rule: nat_digits.induct)
  case (1 n)
  show ?case
  proof (cases "n < 10")
    case True
    then have "nat_digits n = [digit_char n]"
      by (subst nat_digits.simps) (simp del: nat_digits.simps)
    then show ?thesis
      using True by (simp add: digit_char_byte del: nat_digits.simps)
  next
    case False
    then have unfold: "nat_digits n = nat_digits (n div 10) @ [digit_char (n mod 10)]"
      by (subst nat_digits.simps) (simp del: nat_digits.simps)
    have "n mod 10 < 10" by simp
    then have "byte (digit_char (n mod 10)) - 48 = n mod 10"
      by (simp add: digit_char_byte)
    then show ?thesis
      using False 1 unfolding unfold by (simp add: digits_val_append del: nat_digits.simps)
  qed
qed

lemma digits_no_sign:
  "list_all is_digit ds \<Longrightarrow> ds \<noteq> [] \<Longrightarrow> \<not> has_prefix ds ''-'' \<and> \<not> has_prefix ds ''+''"
  by (cases ds) (auto simp: is_digit_def byte_def)

lemma Atoi_Itoa: "- (2 ^ 63) \<le> i \<Longrightarrow> i < 2 ^ 63 \<Longrightarrow> Atoi (Itoa i) = Some i"
proof -
  assume range: "- (2 ^ 63) \<le> i" "i < 2 ^ 63"
  show ?thesis
  proof (cases "i < 0")
    case True
    let ?ds = "nat_digits (nat (- i))"
    have "digits_val 0 ?ds = nat (- i)" by (rule digits_val_nat_digits)
    then have "- int (digits_val 0 ?ds) = i" using True by simp
    then show ?thesis
      using True range nat_digits_digits [of "nat (- i)"]
      by (simp add: Atoi_def Itoa_def Let_def del: nat_digits.simps)
  next
    case False
    let ?ds = "nat_digits (nat i)"
    have "digits_val 0 ?ds = nat i" by (rule digits_val_nat_digits)
    then have "int (digits_val 0 ?ds) = i" using False by simp
    then show ?thesis
      using False range nat_digits_digits [of "nat i"] digits_no_sign [of ?ds]
      by (simp add: Atoi_def Itoa_def Let_def del: nat_digits.simps)
  qed
qed

lemma Atoi_range: "Atoi s = Some i \<Longrightarrow> - (2 ^ 63) \<le> i \<and> i < 2 ^ 63"
  by (auto simp: Atoi_def Let_def split: if_splits)

lemma Itoa_no_quote: "CHR 0x27 \<notin> set (Itoa i)"
proof -
  have "CHR 0x27 \<notin> set (nat_digits n)" for n
    using nat_digits_digits [of n]
    by (auto simp: list_all_iff is_digit_def byte_def simp del: nat_digits.simps)
  then show ?thesis by (simp add: Itoa_def del: nat_digits.simps)
qed

lemma split_quotes_end: "CHR 0x27 \<notin> set a \<Longrightarrow> split_quotes cur a = [cur @ a]"
  by (induction a arbitrary: cur) auto

lemma UpdateUser_query_pieces:
  assumes "CHR 0x27 \<notin> set (Username user)" "CHR 0x27 \<notin> set (Email user)"
    "CHR 0x27 \<notin> set (Bio user)"
  shows "split_quotes [] (UpdateUser_query user i)
      = [''UPDATE users SET username='', Username user, '', email='', Email user, '', bio='',
         Bio user, '' WHERE id='' @ Itoa i]"
  using assms Itoa_no_quote [of i]
  by (simp add: UpdateUser_query_def split_quotes_append split_quotes_end del: nat_digits.simps)

lemma valid_no_quote:
  assumes "validateUser user"
  shows "CHR 0x27 \<notin> set (Username user) \<and> CHR 0x27 \<notin> set (Email user)"
proof -
  have name: "list_all word_class (Username user)"
    using assms by (simp add: validateUser_iff usernameRegex_iff)
  obtain l d t where mail: "Email user = l @ ''@'' @ d @ ''.'' @ t" "list_all local_class l"
      "list_all domain_class d" "list_all is_letter t"
    using assms unfolding validateUser_iff emailRegex_iff by blast
  have "\<not> word_class (CHR 0x27)" "\<not> local_class (CHR 0x27)" "\<not> domain_class (CHR 0x27)"
    "\<not> is_letter (CHR 0x27)"
    by (simp_all add: char_defs)
  then show ?thesis
    using name mail by (auto simp: list_all_iff)
qed

lemma update_rows_absent:
  "\<not> list_ex (\<lambda>r. col_id r = i) table \<Longrightarrow> update_rows i u e b table = (Inr 0, table)"
proof -
  assume absent: "\<not> list_ex (\<lambda>r. col_id r = i) table"
  then have "filter (\<lambda>r. col_id r = i) table = []"
    by (auto simp: list_ex_iff filter_empty_conv)
  moreover have "map (\<lambda>r. if col_id r = i
      then r\<lparr>col_username := u, col_email := e, col_bio := Some b\<rparr> else r) table = table"
    using absent by (auto simp: list_ex_iff intro: map_idI)
  ultimately show ?thesis
    using absent by (simp add: update_rows_def)
qed

text \<open>
  Against the model of PostgreSQL: for a valid candidate whose bio has no quote and an
  id that no row of the table has, \<^verbatim>\<open>UpdateUser\<close> answers 404 \<^verbatim>\<open>User not found\<close> and
  leaves the table and the cache as they were.
\<close>

theorem UpdateUser_absent_id_plain_bio:
  assumes "Atoi vars_id = Some i"
    and "validateUser user"
    and "CHR 0x27 \<notin> set (Bio user)"
    and "\<not> list_ex (\<lambda>r. col_id r = i) (db s)"
  shows "UpdateUser postgres_update vars_id (Some user) s = (HttpError 404 ''User not found'', s)"
proof -
  have range: "- (2 ^ 63) \<le> i" "i < 2 ^ 63"
    using Atoi_range [OF assms(1)] by simp_all
  have quote: "CHR 0x27 \<notin> set (Username user)" "CHR 0x27 \<notin> set (Email user)"
    using valid_no_quote [OF assms(2)] by simp_all
  have empty: "CHR 0x27 \<notin> set (Username zero_User)" "CHR 0x27 \<notin> set (Email zero_User)"
    "CHR 0x27 \<notin> set (Bio zero_User)"
    by (simp_all add: zero_User_def)
  have shape: "split_quotes [] (UpdateUser_query zero_User i)
      = [''UPDATE users SET username='', [], '', email='', [], '', bio='', [],
         '' WHERE id='' @ Itoa i]"
    using UpdateUser_query_pieces [OF empty, of i] by (simp add: zero_User_def)
  have "postgres_update (UpdateUser_query user i) (db s) = (Inr 0, db s)"
    using update_rows_absent [OF assms(4)]
    by (simp add: postgres_update_def UpdateUser_query_pieces [OF quote assms(3)] shape
          Atoi_Itoa [OF range])
  then show ?thesis
    using assms(1,2) by (simp add: UpdateUser_def)
qed

theorem UpdateUser_absent_id_plain_bio_witness:
  "UpdateUser postgres_update ''999999'' (Some valid_user) (NewUserService [bob_row, alice_row])
     = (HttpError 404 ''User not found'', NewUserService [bob_row, alice_row])"
proof -
  have plain: "CHR 0x27 \<notin> set (Bio valid_user)"
    by (simp add: valid_user_def)
  have absent: "\<not> list_ex (\<lambda>r. col_id r = 999999) (db (NewUserService [bob_row, alice_row]))"
    by (simp add: db_New bob_row_def alice_row_def)
  show ?thesis
    using UpdateUser_absent_id_plain_bio [OF Atoi_999999 valid_user_ok plain absent] .
qed


end
